theory Spec2Isabelle
  imports Main "HOL-Library.AList"
begin

section \<open>Strings as the script uses them\<close>

text \<open>
  Asset paths are JavaScript strings. The loader looks only at whether the lower-cased
  path ends in \<open>.fbx\<close>, \<open>.glb\<close> or \<open>.gltf\<close> and whether it contains
  \<open>dis-ball\<close>; on these ASCII patterns the byte-wise functions below agree with
  \<open>String.prototype.toLowerCase\<close>, \<open>endsWith\<close> and \<open>includes\<close>
  (\<open>includesStr\<close> here).
\<close>

type_synonym path = string

definition toLowerChar :: "char \<Rightarrow> char" where
  "toLowerChar c =
     (case map_of (zip ''ABCDEFGHIJKLMNOPQRSTUVWXYZ'' ''abcdefghijklmnopqrstuvwxyz'') c of
        None \<Rightarrow> c
      | Some l \<Rightarrow> l)"

definition toLowerCase :: "string \<Rightarrow> string" where
  "toLowerCase s = map toLowerChar s"

definition endsWith :: "string \<Rightarrow> string \<Rightarrow> bool" where
  "endsWith s suf = (length suf \<le> length s \<and> drop (length s - length suf) s = suf)"

fun includesStr :: "string \<Rightarrow> string \<Rightarrow> bool" where
  "includesStr [] sub = (sub = [])"
| "includesStr (c # cs) sub = (take (length sub) (c # cs) = sub \<or> includesStr cs sub)"

fun string_of_nat :: "nat \<Rightarrow> string" where
  "string_of_nat n =
     (if n < 10 then [''0123456789'' ! n]
      else string_of_nat (n div 10) @ [''0123456789'' ! (n mod 10)])"

declare string_of_nat.simps [simp del]

section \<open>Data\<close>

subsection \<open>Animation actions of the scene-graph library\<close>

text \<open>
  An \<open>AnimationAction\<close> of three.js, reduced to the properties the script reads or
  writes. \<open>time\<close> is the playback position in milliseconds; \<open>isScheduled\<close> says
  that \<open>play()\<close> has put the action on its mixer. As the library documents them:
  \<open>mixer.clipAction\<close> returns an action at position zero that is neither paused nor
  scheduled; \<open>reset()\<close> sets \<open>paused\<close> to false, \<open>enabled\<close> to true and
  \<open>time\<close> to zero; \<open>play()\<close> schedules the action.
\<close>

record action =
  time :: nat
  paused :: bool
  enabled :: bool
  isScheduled :: bool
  loopOnce :: bool
  clampWhenFinished :: bool

definition clipAction :: action where
  "clipAction = \<lparr>time = 0, paused = False, enabled = True, isScheduled = False,
                 loopOnce = False, clampWhenFinished = False\<rparr>"

definition reset :: "action \<Rightarrow> action" where
  "reset a = a\<lparr>paused := False, enabled := True, time := 0\<rparr>"

definition play :: "action \<Rightarrow> action" where
  "play a = a\<lparr>isScheduled := True\<rparr>"

subsection \<open>Registry entries, configuration entries, timers\<close>

record object3d =
  oid :: nat
  visible :: bool

record options =
  optVisible :: bool
  optDelay :: nat

record model =
  object :: object3d
  options :: options
  animations :: "string list"

text \<open>One element of the list returned by \<open>getModelConfigs\<close>. Position and scale
  only place the mesh and are left out.\<close>

record config =
  cfgPath :: path
  cfgDelay :: nat
  cfgVisible :: bool
  cfgEnabled :: bool

record spotlight =
  spotVisible :: bool
  spotDelay :: nat
  modelPath :: path

datatype error = CannotAccess | LoaderRejected | UnsupportedFormat | TypeError

datatype node = ModelNode nat | SpotlightNode nat | ErrorPlane string

text \<open>The four arrow functions the script hands to \<open>setTimeout\<close>.\<close>

datatype callback =
    ShowModelCb path
  | SpotlightCb nat
  | SeqModelCb path
  | SeqSpotlightCb nat

record timer =
  tid :: nat
  due :: nat
  cb :: callback

text \<open>What the network and the two loaders answer for a path: \<open>headOk\<close> is the
  \<open>ok\<close> flag of the \<open>HEAD\<close> request, \<open>loadFBX\<close> and \<open>loadGLTF\<close> give the
  names of the decoded clips, or \<open>None\<close> when \<open>loadAsync\<close> rejects.\<close>

record host =
  targetOk :: bool
  headOk :: "path \<Rightarrow> bool"
  loadFBX :: "path \<Rightarrow> string list option"
  loadGLTF :: "path \<Rightarrow> string list option"

subsection \<open>Program state\<close>

text \<open>
  \<open>models\<close>, \<open>mixers\<close>, \<open>actions\<close> and \<open>cycleTimer\<close> are the properties of
  \<open>ModelManager\<close>. The three objects are association lists in insertion order, which is
  the order of \<open>Object.keys\<close>: every key is a path that passed the extension test, so
  none is an array index. \<open>scene\<close>, \<open>testMode\<close> and \<open>mindarThree\<close> are the
  script's globals (\<open>None\<close> for an unset \<open>scene\<close>). \<open>anchorGroup\<close>,
  \<open>spotlights\<close>, \<open>timeoutIds\<close> and \<open>animationSequenceStarted\<close> are the locals
  of one run of \<open>initializeAR\<close> or \<open>loadTestModels\<close> that its closures share.
  \<open>timers\<close>, \<open>nextTimer\<close> and \<open>now\<close> are the browser's timer queue and clock,
  \<open>alloc\<close> numbers the objects the library creates, \<open>fetched\<close> lists the paths
  requested from the network, \<open>uncaught\<close> the exceptions that escaped a timer callback,
  and \<open>shown\<close> records each write \<open>object.visible = true\<close> of a reveal callback
  with the clock value at which it happened.
\<close>

record state =
  models :: "(path \<times> model) list"
  mixers :: "(path \<times> nat) list"
  actions :: "(path \<times> (string \<times> action) list) list"
  cycleTimer :: "nat option"
  resetPatched :: bool
  scene :: "node list option"
  testMode :: bool
  mindarThree :: bool
  anchorGroup :: "node list"
  spotlights :: "spotlight list"
  timeoutIds :: "nat list"
  animationSequenceStarted :: bool
  timers :: "timer list"
  nextTimer :: nat
  now :: nat
  alloc :: nat
  fetched :: "path list"
  uncaught :: "error list"
  shown :: "(nat \<times> path) list"

section \<open>The browser's timers\<close>

definition setTimeout :: "callback \<Rightarrow> nat \<Rightarrow> state \<Rightarrow> state" where
  "setTimeout c d s =
     s\<lparr>timers := timers s @ [\<lparr>tid = nextTimer s, due = now s + d, cb = c\<rparr>],
       nextTimer := Suc (nextTimer s)\<rparr>"

definition clearTimeout :: "nat \<Rightarrow> state \<Rightarrow> state" where
  "clearTimeout i s = s\<lparr>timers := filter (\<lambda>t. tid t \<noteq> i) (timers s)\<rparr>"

section \<open>ModelManager\<close>

subsection \<open>Loading\<close>

text \<open>The network check and the choice of loader at the head of \<open>loadModel\<close>: the
  \<open>HEAD\<close> request comes first, then the extension decides.\<close>

definition decode :: "host \<Rightarrow> path \<Rightarrow> error + string list" where
  "decode h p =
     (if \<not> headOk h p then Inl CannotAccess
      else if endsWith (toLowerCase p) ''.fbx'' then
        (case loadFBX h p of None \<Rightarrow> Inl LoaderRejected | Some an \<Rightarrow> Inr an)
      else if endsWith (toLowerCase p) ''.glb'' \<or> endsWith (toLowerCase p) ''.gltf'' then
        (case loadGLTF h p of None \<Rightarrow> Inl LoaderRejected | Some an \<Rightarrow> Inr an)
      else Inl UnsupportedFormat)"

definition actionName :: "string \<Rightarrow> nat \<Rightarrow> string" where
  "actionName nm i = (if nm = [] then ''animation_'' @ string_of_nat i else nm)"

text \<open>The \<open>forEach\<close> over the clips that fills the \<open>actions\<close> object of one
  path; \<open>setup\<close> is what the loop body does to the fresh action.\<close>

fun createActions ::
  "(action \<Rightarrow> action) \<Rightarrow> string list \<Rightarrow> nat \<Rightarrow> (string \<times> action) list
     \<Rightarrow> (string \<times> action) list" where
  "createActions setup [] i acts = acts"
| "createActions setup (a # as) i acts =
     createActions setup as (Suc i) (AList.update (actionName a i) (setup clipAction) acts)"

definition loadSetup :: "action \<Rightarrow> action" where
  "loadSetup a = play (a\<lparr>loopOnce := True, clampWhenFinished := True, paused := True\<rparr>)"

definition resetSetup :: "action \<Rightarrow> action" where
  "resetSetup a =
     play (reset (a\<lparr>loopOnce := True, clampWhenFinished := True, paused := True\<rparr>))"

definition showModel :: "path \<Rightarrow> nat \<Rightarrow> state \<Rightarrow> state" where
  "showModel p d s =
     (if map_of (models s) p = None then s else setTimeout (ShowModelCb p) d s)"

text \<open>The later variant of \<open>showModel\<close>, which leaves reveals in AR mode to the
  animation sequence.\<close>

definition showModelAR :: "path \<Rightarrow> nat \<Rightarrow> state \<Rightarrow> state" where
  "showModelAR p d s =
     (if map_of (models s) p = None then s
      else if \<not> testMode s \<and> mindarThree s then s
      else setTimeout (ShowModelCb p) d s)"

text \<open>
  \<open>loadModel\<close>. The result is what the promise settles with, next to the state the
  call leaves behind. Both variants of the file have the same body and differ in the
  \<open>showModel\<close> they call, which is the first argument here. A load is one step at
  an unchanged clock: the time the request and the decoding take, during which timers
  already set may fire, is not part of this model.
\<close>

definition loadModelWith ::
  "(path \<Rightarrow> nat \<Rightarrow> state \<Rightarrow> state) \<Rightarrow> host \<Rightarrow> path \<Rightarrow> options \<Rightarrow> state
     \<Rightarrow> (error + model) \<times> state" where
  "loadModelWith sm h p opts s =
     (let s0 = s\<lparr>fetched := fetched s @ [p]\<rparr> in
      case decode h p of
        Inl e \<Rightarrow> (Inl e, s0)
      | Inr anims \<Rightarrow>
          (let obj = \<lparr>oid = alloc s0, visible = optVisible opts\<rparr>;
               s1 = s0\<lparr>alloc := Suc (alloc s0)\<rparr>;
               s2 = (if anims \<noteq> [] then
                       s1\<lparr>mixers := AList.update p (alloc s1) (mixers s1),
                          actions := AList.update p (createActions loadSetup anims 0 [])
                                       (actions s1),
                          alloc := Suc (alloc s1)\<rparr>
                     else s1);
               m = \<lparr>object = obj, options = opts, animations = anims\<rparr>;
               s3 = s2\<lparr>models := AList.update p m (models s2)\<rparr>;
               s4 = (if 0 < optDelay opts \<and> \<not> optVisible opts
                     then sm p (optDelay opts) s3 else s3)
           in (Inr m, s4)))"

definition loadModel :: "host \<Rightarrow> path \<Rightarrow> options \<Rightarrow> state \<Rightarrow> (error + model) \<times> state" where
  "loadModel = loadModelWith showModel"

definition loadModelAR :: "host \<Rightarrow> path \<Rightarrow> options \<Rightarrow> state \<Rightarrow> (error + model) \<times> state" where
  "loadModelAR = loadModelWith showModelAR"

subsection \<open>Showing and hiding\<close>

definition setVisible :: "bool \<Rightarrow> model \<Rightarrow> model" where
  "setVisible b m = m\<lparr>object := (object m)\<lparr>visible := b\<rparr>\<rparr>"

text \<open>What one loop over \<open>Object.keys(this.actions[path])\<close> does when the body
  applies \<open>f\<close> to each action; nothing when the path has no actions.\<close>

definition forActions :: "(action \<Rightarrow> action) \<Rightarrow> path \<Rightarrow> state \<Rightarrow> state" where
  "forActions f p s =
     (case map_of (actions s) p of
        None \<Rightarrow> s
      | Some acts \<Rightarrow> s\<lparr>actions := AList.update p (map (apsnd f) acts) (actions s)\<rparr>)"

definition startAction :: "action \<Rightarrow> action" where
  "startAction a = play ((reset a)\<lparr>paused := False\<rparr>)"

text \<open>The body of the arrow function in \<open>showModel\<close>. It reads
  \<open>this.models[path]\<close> when the timer fires, so it throws a \<open>TypeError\<close> when the
  entry is gone by then.\<close>

definition showModelCb :: "path \<Rightarrow> state \<Rightarrow> error + state" where
  "showModelCb p s =
     (case map_of (models s) p of
        None \<Rightarrow> Inl TypeError
      | Some m \<Rightarrow>
          Inr (forActions startAction p
                 (s\<lparr>models := AList.update p (setVisible True m) (models s),
                    shown := shown s @ [(now s, p)]\<rparr>)))"

definition hideModel :: "path \<Rightarrow> state \<Rightarrow> state" where
  "hideModel p s =
     (case map_of (models s) p of
        None \<Rightarrow> s
      | Some m \<Rightarrow>
          forActions (\<lambda>a. a\<lparr>paused := True\<rparr>) p
            (s\<lparr>models := AList.update p (setVisible False m) (models s)\<rparr>))"

definition hideAllModels :: "state \<Rightarrow> state" where
  "hideAllModels s = fold hideModel (map fst (models s)) s"

subsection \<open>Reset, cycle and clear\<close>

text \<open>The body of the second loop of \<open>resetModels\<close>: a path with a mixer gets a new
  mixer, and new actions when it has clips.\<close>

definition recreateMixer :: "path \<Rightarrow> state \<Rightarrow> state" where
  "recreateMixer p s =
     (case map_of (mixers s) p of
        None \<Rightarrow> s
      | Some old \<Rightarrow>
          (case map_of (models s) p of
             None \<Rightarrow> s
           | Some m \<Rightarrow>
               (let s1 = s\<lparr>mixers := AList.update p (alloc s) (mixers s),
                            alloc := Suc (alloc s)\<rparr>
                in if animations m \<noteq> [] then
                     s1\<lparr>actions := AList.update p (createActions resetSetup (animations m) 0 [])
                                     (actions s1)\<rparr>
                   else s1)))"

definition showAgain :: "path \<Rightarrow> state \<Rightarrow> state" where
  "showAgain p s =
     (case map_of (models s) p of
        None \<Rightarrow> s
      | Some m \<Rightarrow> showModel p (optDelay (options m)) s)"

definition resetModels :: "state \<Rightarrow> state" where
  "resetModels s =
     (let s1 = hideAllModels s;
          s2 = fold recreateMixer (map fst (models s1)) s1
      in fold showAgain (map fst (models s2)) s2)"

text \<open>The interval timer is kept as its handle only. It expires every
  \<open>cycleInterval\<close> milliseconds after \<open>startResetCycle\<close>, until
  \<open>stopResetCycle\<close>; an expiry is the step \<open>cycleExpiry\<close> of the section on
  the test mode, and it is not among the timers that \<open>advance\<close> fires.\<close>

definition cycleInterval :: nat where
  "cycleInterval = 18000"

definition startResetCycle :: "state \<Rightarrow> state" where
  "startResetCycle s = s\<lparr>cycleTimer := Some (nextTimer s), nextTimer := Suc (nextTimer s)\<rparr>"

definition stopResetCycle :: "state \<Rightarrow> state" where
  "stopResetCycle s = s\<lparr>cycleTimer := None\<rparr>"

definition clearModels :: "state \<Rightarrow> state" where
  "clearModels s = (stopResetCycle s)\<lparr>mixers := [], actions := [], models := []\<rparr>"

section \<open>Timer callbacks and the clock\<close>

text \<open>The guarded arrow functions of \<open>startAnimationSequence\<close>. The first holds
  the registry entry it was created for and makes the object of that entry visible; should
  the registry no longer have the path, the object written to is not one of the registry,
  and only the actions found under the path and the record of reveals change.\<close>

definition seqStartAction :: "action \<Rightarrow> action" where
  "seqStartAction a = (play (reset a))\<lparr>paused := False\<rparr>"

definition seqModelCb :: "path \<Rightarrow> state \<Rightarrow> state" where
  "seqModelCb p s =
     (if \<not> animationSequenceStarted s then s
      else
        forActions seqStartAction p
          (s\<lparr>models := (case map_of (models s) p of
                           None \<Rightarrow> models s
                         | Some m \<Rightarrow> AList.update p (setVisible True m) (models s)),
             shown := shown s @ [(now s, p)]\<rparr>))"

definition lightUp :: "nat \<Rightarrow> state \<Rightarrow> state" where
  "lightUp i s =
     s\<lparr>spotlights := (spotlights s)[i := (spotlights s ! i)\<lparr>spotVisible := True\<rparr>]\<rparr>"

definition seqSpotlightCb :: "nat \<Rightarrow> state \<Rightarrow> state" where
  "seqSpotlightCb i s = (if \<not> animationSequenceStarted s then s else lightUp i s)"

definition runCallback :: "callback \<Rightarrow> state \<Rightarrow> state" where
  "runCallback c s =
     (case c of
        ShowModelCb p \<Rightarrow>
          (case showModelCb p s of
             Inl e \<Rightarrow> s\<lparr>uncaught := uncaught s @ [e]\<rparr>
           | Inr s1 \<Rightarrow> s1)
      | SpotlightCb i \<Rightarrow> lightUp i s
      | SeqModelCb p \<Rightarrow> seqModelCb p s
      | SeqSpotlightCb i \<Rightarrow> seqSpotlightCb i s)"

definition fire :: "timer \<Rightarrow> state \<Rightarrow> state" where
  "fire t s = runCallback (cb t) (s\<lparr>now := max (now s) (due t)\<rparr>)"

text \<open>
  The clock reaches \<open>T\<close>: every pending timer due by then fires, earlier due times
  first and, among equal due times, in the order the timers were set (\<open>sort_key\<close> is
  stable). No callback of this script sets or clears a timer, so the timers that fire are
  those pending at the start. These are the timers of \<open>setTimeout\<close>: \<open>advance\<close>
  is the passing of time between two expiries of the interval of the reset cycle, and a
  statement about \<open>advance T\<close> on a state with a running cycle describes the page
  only for \<open>T\<close> before the next expiry.
\<close>

definition advance :: "nat \<Rightarrow> state \<Rightarrow> state" where
  "advance T s =
     (fold fire (sort_key due (filter (\<lambda>t. due t \<le> T) (timers s)))
        (s\<lparr>timers := filter (\<lambda>t. \<not> due t \<le> T) (timers s)\<rparr>))\<lparr>now := max (now s) T\<rparr>"

section \<open>Test mode\<close>

definition displayErrorMessage :: "string \<Rightarrow> state \<Rightarrow> error option \<times> state" where
  "displayErrorMessage msg s =
     (case scene s of
        None \<Rightarrow> (Some TypeError, s)
      | Some ns \<Rightarrow> (None, s\<lparr>scene := Some (ns @ [ErrorPlane msg])\<rparr>))"

text \<open>The \<open>for\<close> loop over the configuration list, shared by \<open>loadTestModels\<close>
  and \<open>initializeAR\<close>; \<open>body\<close> is the \<open>try\<close> statement with its
  \<open>catch\<close>, and \<open>Some e\<close> is an exception that left it.\<close>

fun loadEntries ::
  "(config \<Rightarrow> state \<Rightarrow> error option \<times> state) \<Rightarrow> config list \<Rightarrow> state
     \<Rightarrow> error option \<times> state" where
  "loadEntries body [] s = (None, s)"
| "loadEntries body (c # cs) s =
     (if \<not> cfgEnabled c then loadEntries body cs s
      else
        (case body c s of
           (Some e, s1) \<Rightarrow> (Some e, s1)
         | (None, s1) \<Rightarrow> loadEntries body cs s1))"

definition testEntry :: "host \<Rightarrow> config \<Rightarrow> state \<Rightarrow> error option \<times> state" where
  "testEntry h c s =
     (case loadModel h (cfgPath c) \<lparr>optVisible = cfgVisible c, optDelay = cfgDelay c\<rparr> s of
        (Inl e, s1) \<Rightarrow> displayErrorMessage (''Failed to load '' @ cfgPath c) s1
      | (Inr m, s1) \<Rightarrow>
          (case scene s1 of
             None \<Rightarrow> displayErrorMessage (''Failed to load '' @ cfgPath c) s1
           | Some ns \<Rightarrow>
               (let s2 = s1\<lparr>scene := Some (ns @ [ModelNode (oid (object m))])\<rparr>
                in if includesStr (cfgPath c) ''dis-ball'' then (None, s2)
                   else
                     (None,
                      s2\<lparr>scene := Some (ns @ [ModelNode (oid (object m)),
                                               SpotlightNode (length (spotlights s2))]),
                         spotlights := spotlights s2 @
                           [\<lparr>spotVisible = False, spotDelay = cfgDelay c + 500,
                             modelPath = cfgPath c\<rparr>]\<rparr>))))"

definition spotlightTimers :: "(nat \<Rightarrow> callback) \<Rightarrow> state \<Rightarrow> state" where
  "spotlightTimers mk s =
     fold (\<lambda>i s'. setTimeout (mk i) (spotDelay (spotlights s' ! i)) s')
       [0..<length (spotlights s)] s"

definition loadTestModels :: "host \<Rightarrow> config list \<Rightarrow> state \<Rightarrow> state" where
  "loadTestModels h cfgs s =
     (case loadEntries (testEntry h) cfgs (s\<lparr>spotlights := []\<rparr>) of
        (Some e, s1) \<Rightarrow> s1
      | (None, s1) \<Rightarrow> (startResetCycle (spotlightTimers SpotlightCb s1))\<lparr>resetPatched := True\<rparr>)"

text \<open>\<open>ModelManager.resetModels\<close> as \<open>loadTestModels\<close> rebinds it.\<close>

definition resetModelsPatched :: "state \<Rightarrow> state" where
  "resetModelsPatched s =
     (let s1 = resetModels s;
          s2 = s1\<lparr>spotlights := map (\<lambda>sp. sp\<lparr>spotVisible := False\<rparr>) (spotlights s1)\<rparr>
      in spotlightTimers SpotlightCb s2)"

text \<open>The arrow function that \<open>startResetCycle\<close> hands to \<open>setInterval\<close>. It
  looks \<open>resetModels\<close> up when it runs, and so calls the rebound function once
  \<open>loadTestModels\<close> has run.\<close>

definition cycleExpiry :: "state \<Rightarrow> state" where
  "cycleExpiry s =
     (if cycleTimer s = None then s
      else if resetPatched s then resetModelsPatched s
      else resetModels s)"

section \<open>AR mode\<close>

definition arEntry :: "host \<Rightarrow> config \<Rightarrow> state \<Rightarrow> error option \<times> state" where
  "arEntry h c s =
     (case loadModelAR h (cfgPath c) \<lparr>optVisible = False, optDelay = cfgDelay c\<rparr> s of
        (Inl e, s1) \<Rightarrow> displayErrorMessage (''Failed to load '' @ cfgPath c) s1
      | (Inr m, s1) \<Rightarrow>
          (let s2 = s1\<lparr>anchorGroup := anchorGroup s1 @ [ModelNode (oid (object m))]\<rparr>
           in if includesStr (cfgPath c) ''dis-ball'' then (None, s2)
              else
                (None,
                 s2\<lparr>anchorGroup := anchorGroup s2 @ [SpotlightNode (length (spotlights s2))],
                    spotlights := spotlights s2 @
                      [\<lparr>spotVisible = False, spotDelay = cfgDelay c,
                        modelPath = cfgPath c\<rparr>]\<rparr>)))"

text \<open>\<open>initializeAR\<close> up to the definition of its closures; \<open>Some e\<close> is the
  exception it rethrows. The two text boxes are left out.\<close>

definition initializeAR :: "host \<Rightarrow> config list \<Rightarrow> state \<Rightarrow> error option \<times> state" where
  "initializeAR h cfgs s =
     (if \<not> targetOk h then (Some CannotAccess, s)
      else
        loadEntries (arEntry h) cfgs
          (s\<lparr>mindarThree := True, anchorGroup := [], spotlights := [], timeoutIds := [],
             animationSequenceStarted := False\<rparr>))"

definition hideAndReset :: "path \<Rightarrow> state \<Rightarrow> state" where
  "hideAndReset p s =
     (case map_of (models s) p of
        None \<Rightarrow> s
      | Some m \<Rightarrow>
          forActions (\<lambda>a. reset (a\<lparr>paused := True\<rparr>)) p
            (s\<lparr>models := AList.update p (setVisible False m) (models s)\<rparr>))"

definition hideSpotlights :: "state \<Rightarrow> state" where
  "hideSpotlights s =
     s\<lparr>spotlights := map (\<lambda>sp. sp\<lparr>spotVisible := False\<rparr>) (spotlights s)\<rparr>"

definition scheduleModel :: "path \<Rightarrow> state \<Rightarrow> state" where
  "scheduleModel p s =
     (case map_of (models s) p of
        None \<Rightarrow> s
      | Some m \<Rightarrow>
          (setTimeout (SeqModelCb p) (optDelay (options m)) s)
            \<lparr>timeoutIds := timeoutIds s @ [nextTimer s]\<rparr>)"

definition scheduleSpotlight :: "nat \<Rightarrow> state \<Rightarrow> state" where
  "scheduleSpotlight i s =
     (setTimeout (SeqSpotlightCb i) (spotDelay (spotlights s ! i)) s)
       \<lparr>timeoutIds := timeoutIds s @ [nextTimer s]\<rparr>"

definition clearTimeouts :: "state \<Rightarrow> state" where
  "clearTimeouts s = (fold clearTimeout (timeoutIds s) s)\<lparr>timeoutIds := []\<rparr>"

definition startAnimationSequence :: "state \<Rightarrow> state" where
  "startAnimationSequence s =
     (if animationSequenceStarted s then s
      else
        (let s1 = clearTimeouts (s\<lparr>animationSequenceStarted := True\<rparr>);
             s2 = fold hideAndReset (map fst (models s1)) s1;
             s3 = hideSpotlights s2;
             s4 = fold scheduleModel (map fst (models s3)) s3
         in fold scheduleSpotlight [0..<length (spotlights s4)] s4))"

definition stopAnimationSequence :: "state \<Rightarrow> state" where
  "stopAnimationSequence s =
     (if \<not> animationSequenceStarted s then s
      else
        (let s1 = clearTimeouts (s\<lparr>animationSequenceStarted := False\<rparr>);
             s2 = fold hideAndReset (map fst (models s1)) s1
         in hideSpotlights s2))"

text \<open>The handlers of the anchor. The first copy of the script in the file also shows
  and hides the text boxes in them, which are left out here.\<close>

definition onTargetFound :: "state \<Rightarrow> state" where
  "onTargetFound s = startAnimationSequence s"

definition onTargetLost :: "state \<Rightarrow> state" where
  "onTargetLost s = stopAnimationSequence s"

text \<open>The change handler of the test-mode checkbox.\<close>

definition setTestMode :: "bool \<Rightarrow> state \<Rightarrow> state" where
  "setTestMode b s = s\<lparr>testMode := b\<rparr>"

text \<open>\<open>stopAR\<close> of the later script. In AR mode it first calls the \<open>cleanup\<close>
  that \<open>initializeAR\<close> attached, which stops the sequence and removes the two
  handlers of the anchor. The renderer and the camera are left out.\<close>

definition stopAR :: "state \<Rightarrow> state" where
  "stopAR s =
     (let s1 = (if mindarThree s \<and> \<not> testMode s
                then (stopAnimationSequence s)\<lparr>mindarThree := False\<rparr> else s)
      in (clearModels (stopResetCycle s1))\<lparr>scene := None\<rparr>)"

text \<open>\<open>startAR\<close> of the later script, with the camera permission granted and
  MindAR starting; \<open>Some e\<close> is the error that reaches the \<open>catch\<close> of the AR
  branch, where the page offers the test mode instead. In test mode the global
  \<open>scene\<close> is the new scene of \<open>initTestScene\<close>. The callback of a spotlight
  holds the spotlight it was set for; here spotlights are addressed by their position in
  the list of the running session, so such a callback is followed only while the session
  that set it lasts.\<close>

definition startAR :: "host \<Rightarrow> config list \<Rightarrow> state \<Rightarrow> error option \<times> state" where
  "startAR h cfgs s =
     (let s1 = clearModels s
      in if testMode s1 then (None, loadTestModels h cfgs (s1\<lparr>scene := Some []\<rparr>))
         else initializeAR h cfgs s1)"

text \<open>One AR session: the page as loaded, \<open>initializeAR\<close>, then tracking events and
  the passing of time in any order.\<close>

definition pageLoad :: state where
  "pageLoad =
     \<lparr>models = [], mixers = [], actions = [], cycleTimer = None, resetPatched = False,
      scene = None, testMode = False, mindarThree = False, anchorGroup = [],
      spotlights = [], timeoutIds = [], animationSequenceStarted = False, timers = [],
      nextTimer = 1, now = 0, alloc = 0, fetched = [], uncaught = [], shown = []\<rparr>"

datatype event = TargetFound | TargetLost | Wait nat

fun step :: "event \<Rightarrow> state \<Rightarrow> state" where
  "step TargetFound s = onTargetFound s"
| "step TargetLost s = onTargetLost s"
| "step (Wait d) s = advance (now s + d) s"

definition run :: "event list \<Rightarrow> state \<Rightarrow> state" where
  "run evs s = fold step evs s"

section \<open>Invariants of an AR session\<close>

text \<open>Every pending timer is listed in \<open>timeoutIds\<close>.\<close>

definition tracked :: "state \<Rightarrow> bool" where
  "tracked s = (\<forall>t \<in> set (timers s). tid t \<in> set (timeoutIds s))"

text \<open>No model of the registry and no spotlight is visible.\<close>

definition allHidden :: "state \<Rightarrow> bool" where
  "allHidden s =
     ((\<forall>e \<in> set (models s). \<not> visible (object (snd e))) \<and>
      (\<forall>sp \<in> set (spotlights s). \<not> spotVisible sp))"

definition sessionInv :: "state \<Rightarrow> bool" where
  "sessionInv s =
     (tracked s \<and> distinct (map fst (models s)) \<and>
      (\<not> animationSequenceStarted s \<longrightarrow> timers s = [] \<and> allHidden s))"

text \<open>What holds while \<open>initializeAR\<close> loads the models: AR mode is on, nothing is
  scheduled and nothing is visible.\<close>

definition loadingAR :: "state \<Rightarrow> bool" where
  "loadingAR s =
     (timers s = [] \<and> \<not> testMode s \<and> mindarThree s \<and> \<not> animationSequenceStarted s \<and>
      allHidden s \<and> distinct (map fst (models s)))"

section \<open>Plans\<close>

text \<open>What a timer does when it fires depends on its callback and its due time only.\<close>

definition plan :: "state \<Rightarrow> (nat \<times> callback) list" where
  "plan s = map (\<lambda>t. (due t, cb t)) (timers s)"

text \<open>Firing an entry of a plan, the reveal an entry stands for, and the callbacks
  that belong to the animation sequence.\<close>

definition fireAt :: "nat \<times> callback \<Rightarrow> state \<Rightarrow> state" where
  "fireAt dc s = runCallback (snd dc) (s\<lparr>now := max (now s) (fst dc)\<rparr>)"

fun revealOf :: "nat \<times> callback \<Rightarrow> (nat \<times> path) option" where
  "revealOf (d, SeqModelCb p) = Some (d, p)"
| "revealOf (d, ShowModelCb p) = Some (d, p)"
| "revealOf (d, c) = None"

fun ofSequence :: "callback \<Rightarrow> bool" where
  "ofSequence (SeqModelCb p) = True"
| "ofSequence (SeqSpotlightCb i) = True"
| "ofSequence c = False"

section \<open>Failed loads\<close>

text \<open>Whether the file of an entry can be fetched and decoded.\<close>

definition loads :: "host \<Rightarrow> config \<Rightarrow> bool" where
  "loads h c = (case decode h (cfgPath c) of Inl e \<Rightarrow> False | Inr anims \<Rightarrow> True)"

fun isErrorPlane :: "node \<Rightarrow> bool" where
  "isErrorPlane (ErrorPlane msg) = True"
| "isErrorPlane n = False"

text \<open>Two states that differ at most in the list of fetched paths and in the error
  planes of the scene.\<close>

definition sameRun :: "state \<Rightarrow> state \<Rightarrow> bool" where
  "sameRun s s' =
     (\<exists>ns ns' f. s = s'\<lparr>scene := Some ns, fetched := f\<rparr> \<and> scene s' = Some ns' \<and>
        filter (\<lambda>n. \<not> isErrorPlane n) ns = filter (\<lambda>n. \<not> isErrorPlane n) ns')"

section \<open>The earlier ModelManager of js/main.js\<close>

text \<open>
  \<open>js/main.js\<close> keeps a mixer inside each registry entry and all mixers in an array.
  Its \<open>loadModel\<close> answers from the registry when the path is already there, and its
  \<open>clearModels\<close> removes every registered object from its parent.
\<close>

record mainEntry =
  mObject :: object3d
  mMixer :: nat
  mAnimations :: "string list"
  mConfig :: options
  mIsGLB :: bool

record mainManager =
  mModels :: "(path \<times> mainEntry) list"
  mMixers :: "nat list"
  mScene :: "node list"
  mFetched :: "path list"
  mAlloc :: nat

definition isGLB :: "path \<Rightarrow> bool" where
  "isGLB p = (endsWith (toLowerCase p) ''.glb'' \<or> endsWith (toLowerCase p) ''.gltf'')"

definition mainLoadModel ::
  "host \<Rightarrow> path \<Rightarrow> options \<Rightarrow> mainManager \<Rightarrow> (error + mainEntry) \<times> mainManager" where
  "mainLoadModel h p opts s =
     (case map_of (mModels s) p of
        Some e \<Rightarrow> (Inr e, s)
      | None \<Rightarrow>
          (let s0 = s\<lparr>mFetched := mFetched s @ [p]\<rparr> in
           if \<not> headOk h p then (Inl CannotAccess, s0)
           else
             (case (if isGLB p then loadGLTF h p else loadFBX h p) of
                None \<Rightarrow> (Inl LoaderRejected, s0)
              | Some anims \<Rightarrow>
                  (let e = \<lparr>mObject = \<lparr>oid = mAlloc s0, visible = optVisible opts\<rparr>,
                            mMixer = Suc (mAlloc s0), mAnimations = anims, mConfig = opts,
                            mIsGLB = isGLB p\<rparr>
                   in (Inr e,
                       s0\<lparr>mMixers := mMixers s0 @ [Suc (mAlloc s0)],
                          mModels := AList.update p e (mModels s0),
                          mAlloc := mAlloc s0 + 2\<rparr>)))))"

definition mainClearModels :: "mainManager \<Rightarrow> mainManager" where
  "mainClearModels s =
     s\<lparr>mScene := filter (\<lambda>n. n \<notin> (\<lambda>e. ModelNode (oid (mObject (snd e)))) ` set (mModels s))
                   (mScene s),
       mModels := [], mMixers := []\<rparr>"

section \<open>Restart as the specification words it\<close>





text \<open>What an observer sees of the registry: for each path whether its object is
  visible, and the clips of the visible ones.\<close>

definition visibilities :: "state \<Rightarrow> (path \<times> bool) list" where
  "visibilities s = map (\<lambda>e. (fst e, visible (object (snd e)))) (models s)"

definition playingFromZero :: "action \<Rightarrow> bool" where
  "playingFromZero a = (time a = 0 \<and> \<not> paused a \<and> isScheduled a)"

definition visibleClipsAtZero :: "state \<Rightarrow> bool" where
  "visibleClipsAtZero s =
     (\<forall>e \<in> set (models s). visible (object (snd e)) \<longrightarrow>
        (\<forall>acts. map_of (actions s) (fst e) = Some acts \<longrightarrow>
           (\<forall>na \<in> set acts. playingFromZero (snd na))))"


section \<open>Sample inputs\<close>

text \<open>The globals as \<open>startAR\<close> has set them in test mode when it calls
  \<open>loadTestModels\<close>.\<close>

definition testPage :: state where
  "testPage = pageLoad\<lparr>testMode := True, scene := Some []\<rparr>"

text \<open>A host on which every file but \<open>z.fbx\<close> can be fetched and decoded; FBX files
  carry one clip, GLB files none.\<close>

definition demoHost :: host where
  "demoHost =
     \<lparr>targetOk = True, headOk = (\<lambda>p. p \<noteq> ''z.fbx''),
      loadFBX = (\<lambda>p. Some [''walk'']), loadGLTF = (\<lambda>p. Some [])\<rparr>"

definition entry :: "path \<Rightarrow> nat \<Rightarrow> config" where
  "entry p d = \<lparr>cfgPath = p, cfgDelay = d, cfgVisible = False, cfgEnabled = True\<rparr>"

text \<open>The state \<open>initializeAR\<close> leaves for the single entry \<open>a.glb\<close> with a
  delay of 100 ms.\<close>

definition oneLoaded :: state where
  "oneLoaded =
     \<lparr>models = [(''a.glb'', \<lparr>object = \<lparr>oid = 0, visible = False\<rparr>,
                            options = \<lparr>optVisible = False, optDelay = 100\<rparr>,
                            animations = []\<rparr>)],
      mixers = [], actions = [], cycleTimer = None, resetPatched = False,
      scene = None, testMode = False, mindarThree = True,
      anchorGroup = [ModelNode 0, SpotlightNode 0],
      spotlights = [\<lparr>spotVisible = False, spotDelay = 100, modelPath = ''a.glb''\<rparr>],
      timeoutIds = [], animationSequenceStarted = False, timers = [],
      nextTimer = 1, now = 0, alloc = 1, fetched = [''a.glb''], uncaught = [], shown = []\<rparr>"

text \<open>The state \<open>loadTestModels\<close> leaves for the single entry \<open>a.glb\<close> with
  delay \<open>d\<close>.\<close>

definition testLoaded :: "nat \<Rightarrow> state" where
  "testLoaded d =
     \<lparr>models = [(''a.glb'', \<lparr>object = \<lparr>oid = 0, visible = False\<rparr>,
                            options = \<lparr>optVisible = False, optDelay = d\<rparr>,
                            animations = []\<rparr>)],
      mixers = [], actions = [], cycleTimer = Some (if d = 0 then 2 else 3), resetPatched = True,
      scene = Some [ModelNode 0, SpotlightNode 0], testMode = True, mindarThree = False,
      anchorGroup = [],
      spotlights = [\<lparr>spotVisible = False, spotDelay = d + 500, modelPath = ''a.glb''\<rparr>],
      timeoutIds = [], animationSequenceStarted = False,
      timers = (if d = 0 then [] else [\<lparr>tid = 1, due = d, cb = ShowModelCb ''a.glb''\<rparr>]) @
               [\<lparr>tid = (if d = 0 then 1 else 2), due = d + 500, cb = SpotlightCb 0\<rparr>],
      nextTimer = (if d = 0 then 3 else 4), now = 0, alloc = 1, fetched = [''a.glb''],
      uncaught = [], shown = []\<rparr>"

text \<open>A list with a disabled entry between two entries of equal delay, and the state
  \<open>initializeAR\<close> leaves for it.\<close>

definition tieList :: "config list" where
  "tieList =
     [entry ''a.glb'' 1000,
      \<lparr>cfgPath = ''d.glb'', cfgDelay = 5, cfgVisible = False, cfgEnabled = False\<rparr>,
      entry ''b.glb'' 1000]"

definition tieLoaded :: state where
  "tieLoaded =
     \<lparr>models = [(''a.glb'', \<lparr>object = \<lparr>oid = 0, visible = False\<rparr>,
                            options = \<lparr>optVisible = False, optDelay = 1000\<rparr>,
                            animations = []\<rparr>),
                (''b.glb'', \<lparr>object = \<lparr>oid = 1, visible = False\<rparr>,
                            options = \<lparr>optVisible = False, optDelay = 1000\<rparr>,
                            animations = []\<rparr>)],
      mixers = [], actions = [], cycleTimer = None, resetPatched = False,
      scene = None, testMode = False, mindarThree = True,
      anchorGroup = [ModelNode 0, SpotlightNode 0, ModelNode 1, SpotlightNode 1],
      spotlights = [\<lparr>spotVisible = False, spotDelay = 1000, modelPath = ''a.glb''\<rparr>,
                    \<lparr>spotVisible = False, spotDelay = 1000, modelPath = ''b.glb''\<rparr>],
      timeoutIds = [], animationSequenceStarted = False, timers = [],
      nextTimer = 1, now = 0, alloc = 2, fetched = [''a.glb'', ''b.glb''], uncaught = [],
      shown = []\<rparr>"

text \<open>The state \<open>loadTestModels\<close> leaves for the same list.\<close>

definition tieTest :: state where
  "tieTest =
     \<lparr>models = [(''a.glb'', \<lparr>object = \<lparr>oid = 0, visible = False\<rparr>,
                            options = \<lparr>optVisible = False, optDelay = 1000\<rparr>,
                            animations = []\<rparr>),
                (''b.glb'', \<lparr>object = \<lparr>oid = 1, visible = False\<rparr>,
                            options = \<lparr>optVisible = False, optDelay = 1000\<rparr>,
                            animations = []\<rparr>)],
      mixers = [], actions = [], cycleTimer = Some 5, resetPatched = True,
      scene = Some [ModelNode 0, SpotlightNode 0, ModelNode 1, SpotlightNode 1],
      testMode = True, mindarThree = False, anchorGroup = [],
      spotlights = [\<lparr>spotVisible = False, spotDelay = 1500, modelPath = ''a.glb''\<rparr>,
                    \<lparr>spotVisible = False, spotDelay = 1500, modelPath = ''b.glb''\<rparr>],
      timeoutIds = [], animationSequenceStarted = False,
      timers = [\<lparr>tid = 1, due = 1000, cb = ShowModelCb ''a.glb''\<rparr>,
                \<lparr>tid = 2, due = 1000, cb = ShowModelCb ''b.glb''\<rparr>,
                \<lparr>tid = 3, due = 1500, cb = SpotlightCb 0\<rparr>,
                \<lparr>tid = 4, due = 1500, cb = SpotlightCb 1\<rparr>],
      nextTimer = 6, now = 0, alloc = 2, fetched = [''a.glb'', ''b.glb''], uncaught = [],
      shown = []\<rparr>"

text \<open>A list with the single entry \<open>dis-ball.glb\<close>, which gets no spotlight, the
  state a start in test mode leaves for it on the page as loaded, and the state a start
  in AR mode leaves when that test session was stopped after one second and the checkbox
  cleared.\<close>

definition ballList :: "config list" where
  "ballList = [entry ''dis-ball.glb'' 5000]"

definition ballTest :: state where
  "ballTest =
     \<lparr>models = [(''dis-ball.glb'', \<lparr>object = \<lparr>oid = 0, visible = False\<rparr>,
                                   options = \<lparr>optVisible = False, optDelay = 5000\<rparr>,
                                   animations = []\<rparr>)],
      mixers = [], actions = [], cycleTimer = Some 2, resetPatched = True,
      scene = Some [ModelNode 0], testMode = True, mindarThree = False, anchorGroup = [],
      spotlights = [], timeoutIds = [], animationSequenceStarted = False,
      timers = [\<lparr>tid = 1, due = 5000, cb = ShowModelCb ''dis-ball.glb''\<rparr>],
      nextTimer = 3, now = 0, alloc = 1, fetched = [''dis-ball.glb''], uncaught = [],
      shown = []\<rparr>"

definition ballAR :: state where
  "ballAR =
     \<lparr>models = [(''dis-ball.glb'', \<lparr>object = \<lparr>oid = 1, visible = False\<rparr>,
                                   options = \<lparr>optVisible = False, optDelay = 5000\<rparr>,
                                   animations = []\<rparr>)],
      mixers = [], actions = [], cycleTimer = None, resetPatched = True,
      scene = None, testMode = False, mindarThree = True, anchorGroup = [ModelNode 1],
      spotlights = [], timeoutIds = [], animationSequenceStarted = False,
      timers = [\<lparr>tid = 1, due = 5000, cb = ShowModelCb ''dis-ball.glb''\<rparr>],
      nextTimer = 3, now = 1000, alloc = 2, fetched = [''dis-ball.glb'', ''dis-ball.glb''],
      uncaught = [], shown = []\<rparr>"


definition tripLoaded :: state where
  "tripLoaded =
     \<lparr>models = [(''a.glb'', \<lparr>object = \<lparr>oid = 2, visible = False\<rparr>,
                            options = \<lparr>optVisible = False, optDelay = 1000\<rparr>,
                            animations = []\<rparr>),
                (''b.glb'', \<lparr>object = \<lparr>oid = 1, visible = False\<rparr>,
                            options = \<lparr>optVisible = False, optDelay = 1000\<rparr>,
                            animations = []\<rparr>)],
      mixers = [], actions = [], cycleTimer = None, resetPatched = False,
      scene = None, testMode = False, mindarThree = True,
      anchorGroup = [ModelNode 0, SpotlightNode 0, ModelNode 1, SpotlightNode 1,
                     ModelNode 2, SpotlightNode 2],
      spotlights = [\<lparr>spotVisible = False, spotDelay = 1000, modelPath = ''a.glb''\<rparr>,
                    \<lparr>spotVisible = False, spotDelay = 1000, modelPath = ''b.glb''\<rparr>,
                    \<lparr>spotVisible = False, spotDelay = 1000, modelPath = ''a.glb''\<rparr>],
      timeoutIds = [], animationSequenceStarted = False, timers = [],
      nextTimer = 1, now = 0, alloc = 3, fetched = [''a.glb'', ''b.glb'', ''a.glb''],
      uncaught = [], shown = []\<rparr>"


section \<open>Basic facts\<close>

lemmas run_defs =
  startAnimationSequence_def clearTimeouts_def hideAndReset_def forActions_def
  hideSpotlights_def scheduleModel_def scheduleSpotlight_def setTimeout_def setVisible_def
  Let_def advance_def fire_def runCallback_def seqModelCb_def seqSpotlightCb_def lightUp_def

lemma fold_keeps:
  assumes "\<And>x s. g (f x s) = g s"
  shows "g (fold f xs s) = g s"
  using assms by (induction xs arbitrary: s) simp_all

lemma fold_invariant:
  assumes "\<And>x s. P s \<Longrightarrow> P (f x s)" and "P s"
  shows "P (fold f xs s)"
  using assms by (induction xs arbitrary: s) simp_all

lemma update_present:
  "map_of al p = Some m \<Longrightarrow> distinct (map fst al) \<Longrightarrow>
   AList.update p v al = map (\<lambda>(k, w). (k, if k = p then v else w)) al"
proof (induction al)
  case Nil
  then show ?case by simp
next
  case (Cons a al)
  obtain k w where a: "a = (k, w)" by (cases a)
  show ?case
  proof (cases "k = p")
    case True
    with Cons.prems a have "p \<notin> fst ` set al" by auto
    then have "map (\<lambda>(k, w). (k, if k = p then v else w)) al = al"
      by (induction al) auto
    with True a show ?thesis by simp
  next
    case False
    with Cons a show ?thesis by simp
  qed
qed

lemma keys_update_present:
  "map_of al p = Some m \<Longrightarrow> map fst (AList.update p v al) = map fst al"
  by (simp add: update_keys) (metis domI dom_map_of_conv_image_fst)

subsection \<open>Fields the sequence operations leave alone\<close>

lemma forActions_fields [simp]:
  "models (forActions f p s) = models s"
  "timers (forActions f p s) = timers s"
  "timeoutIds (forActions f p s) = timeoutIds s"
  "animationSequenceStarted (forActions f p s) = animationSequenceStarted s"
  "spotlights (forActions f p s) = spotlights s"
  "shown (forActions f p s) = shown s"
  "now (forActions f p s) = now s"
  "nextTimer (forActions f p s) = nextTimer s"
  by (simp_all add: forActions_def split: option.splits)

lemma hideAndReset_fields [simp]:
  "timers (hideAndReset p s) = timers s"
  "timeoutIds (hideAndReset p s) = timeoutIds s"
  "animationSequenceStarted (hideAndReset p s) = animationSequenceStarted s"
  "spotlights (hideAndReset p s) = spotlights s"
  "shown (hideAndReset p s) = shown s"
  "now (hideAndReset p s) = now s"
  "nextTimer (hideAndReset p s) = nextTimer s"
  by (simp_all add: hideAndReset_def split: option.splits)

lemma hideAndReset_keys [simp]: "map fst (models (hideAndReset p s)) = map fst (models s)"
  by (simp add: hideAndReset_def keys_update_present split: option.splits)

lemma fold_hideAndReset_fields [simp]:
  "timers (fold hideAndReset ps s) = timers s"
  "timeoutIds (fold hideAndReset ps s) = timeoutIds s"
  "animationSequenceStarted (fold hideAndReset ps s) = animationSequenceStarted s"
  "spotlights (fold hideAndReset ps s) = spotlights s"
  "shown (fold hideAndReset ps s) = shown s"
  "now (fold hideAndReset ps s) = now s"
  "nextTimer (fold hideAndReset ps s) = nextTimer s"
  "map fst (models (fold hideAndReset ps s)) = map fst (models s)"
  by (rule fold_keeps, simp)+

lemma hideSpotlights_fields [simp]:
  "timers (hideSpotlights s) = timers s"
  "timeoutIds (hideSpotlights s) = timeoutIds s"
  "animationSequenceStarted (hideSpotlights s) = animationSequenceStarted s"
  "models (hideSpotlights s) = models s"
  "actions (hideSpotlights s) = actions s"
  "shown (hideSpotlights s) = shown s"
  "now (hideSpotlights s) = now s"
  "nextTimer (hideSpotlights s) = nextTimer s"
  "length (spotlights (hideSpotlights s)) = length (spotlights s)"
  by (simp_all add: hideSpotlights_def)

lemma clearTimeout_fields [simp]:
  "timeoutIds (clearTimeout i s) = timeoutIds s"
  "animationSequenceStarted (clearTimeout i s) = animationSequenceStarted s"
  "models (clearTimeout i s) = models s"
  "actions (clearTimeout i s) = actions s"
  "spotlights (clearTimeout i s) = spotlights s"
  "shown (clearTimeout i s) = shown s"
  "now (clearTimeout i s) = now s"
  "nextTimer (clearTimeout i s) = nextTimer s"
  by (simp_all add: clearTimeout_def)

lemma timers_fold_clearTimeout:
  "timers (fold clearTimeout ids s) = filter (\<lambda>t. tid t \<notin> set ids) (timers s)"
  by (induction ids arbitrary: s) (auto simp: clearTimeout_def intro: filter_cong)

lemma clearTimeouts_fields [simp]:
  "timeoutIds (clearTimeouts s) = []"
  "animationSequenceStarted (clearTimeouts s) = animationSequenceStarted s"
  "models (clearTimeouts s) = models s"
  "actions (clearTimeouts s) = actions s"
  "spotlights (clearTimeouts s) = spotlights s"
  "shown (clearTimeouts s) = shown s"
  "now (clearTimeouts s) = now s"
  "nextTimer (clearTimeouts s) = nextTimer s"
  "timers (clearTimeouts s) = filter (\<lambda>t. tid t \<notin> set (timeoutIds s)) (timers s)"
  by (simp_all add: clearTimeouts_def timers_fold_clearTimeout fold_keeps)

lemma scheduleModel_fields [simp]:
  "animationSequenceStarted (scheduleModel p s) = animationSequenceStarted s"
  "models (scheduleModel p s) = models s"
  "actions (scheduleModel p s) = actions s"
  "spotlights (scheduleModel p s) = spotlights s"
  "shown (scheduleModel p s) = shown s"
  "now (scheduleModel p s) = now s"
  by (simp_all add: scheduleModel_def setTimeout_def split: option.splits)

lemma fold_scheduleModel_fields [simp]:
  "animationSequenceStarted (fold scheduleModel ps s) = animationSequenceStarted s"
  "models (fold scheduleModel ps s) = models s"
  "actions (fold scheduleModel ps s) = actions s"
  "spotlights (fold scheduleModel ps s) = spotlights s"
  "shown (fold scheduleModel ps s) = shown s"
  "now (fold scheduleModel ps s) = now s"
  by (rule fold_keeps, simp)+

lemma scheduleSpotlight_fields [simp]:
  "animationSequenceStarted (scheduleSpotlight i s) = animationSequenceStarted s"
  "models (scheduleSpotlight i s) = models s"
  "actions (scheduleSpotlight i s) = actions s"
  "spotlights (scheduleSpotlight i s) = spotlights s"
  "shown (scheduleSpotlight i s) = shown s"
  "now (scheduleSpotlight i s) = now s"
  by (simp_all add: scheduleSpotlight_def setTimeout_def)

lemma fold_scheduleSpotlight_fields [simp]:
  "animationSequenceStarted (fold scheduleSpotlight is s) = animationSequenceStarted s"
  "models (fold scheduleSpotlight is s) = models s"
  "actions (fold scheduleSpotlight is s) = actions s"
  "spotlights (fold scheduleSpotlight is s) = spotlights s"
  "shown (fold scheduleSpotlight is s) = shown s"
  "now (fold scheduleSpotlight is s) = now s"
  by (rule fold_keeps, simp)+

lemma started_after_start [simp]:
  "animationSequenceStarted (startAnimationSequence s)"
  by (simp add: startAnimationSequence_def Let_def)

lemma not_started_after_stop [simp]:
  "\<not> animationSequenceStarted (stopAnimationSequence s)"
  by (simp add: stopAnimationSequence_def Let_def)

subsection \<open>Hiding\<close>

lemma models_hideAndReset:
  assumes "distinct (map fst (models s))"
  shows "models (hideAndReset p s) =
         map (\<lambda>(k, m). (k, if k = p then setVisible False m else m)) (models s)"
proof (cases "map_of (models s) p")
  case None
  then have "p \<notin> fst ` set (models s)" by (simp add: map_of_eq_None_iff)
  then have "map (\<lambda>(k, m). (k, if k = p then setVisible False m else m)) (models s) = models s"
    by (intro map_idI) force
  with None show ?thesis by (simp add: hideAndReset_def)
next
  case (Some m)
  have "AList.update p (setVisible False m) (models s) =
        map (\<lambda>(k, w). (k, if k = p then setVisible False m else w)) (models s)"
    using Some assms by (rule update_present)
  also have "\<dots> = map (\<lambda>(k, m). (k, if k = p then setVisible False m else m)) (models s)"
    using Some assms by (intro map_cong refl) (auto dest: eq_key_imp_eq_value simp: map_of_eq_Some_iff)
  finally show ?thesis using Some by (simp add: hideAndReset_def)
qed

lemma hidden_after_fold_hideAndReset:
  assumes "distinct (map fst (models s))"
  shows "\<forall>(k, m) \<in> set (models (fold hideAndReset ps s)).
           (k \<in> set ps \<longrightarrow> \<not> visible (object m)) \<and>
           (k \<notin> set ps \<longrightarrow> (k, m) \<in> set (models s))"
  using assms
proof (induction ps arbitrary: s)
  case Nil
  then show ?case by auto
next
  case (Cons p ps)
  have d: "distinct (map fst (models (hideAndReset p s)))"
    using Cons.prems by simp
  show ?case
    using Cons.IH[OF d] Cons.prems
    by (auto simp: models_hideAndReset setVisible_def split: if_splits)
qed

lemma all_models_hidden:
  assumes "distinct (map fst (models s))"
  shows "\<forall>e \<in> set (models (fold hideAndReset (map fst (models s)) s)). \<not> visible (object (snd e))"
proof
  fix e assume e: "e \<in> set (models (fold hideAndReset (map fst (models s)) s))"
  obtain k m where "e = (k, m)" by (cases e)
  with e have km: "(k, m) \<in> set (models (fold hideAndReset (map fst (models s)) s))"
    by simp
  then have "k \<in> fst ` set (models (fold hideAndReset (map fst (models s)) s))"
    by force
  then have "k \<in> set (map fst (models s))"
    by (metis fold_hideAndReset_fields(8) set_map)
  with hidden_after_fold_hideAndReset[OF assms, of "map fst (models s)"] km
  show "\<not> visible (object (snd e))" using \<open>e = (k, m)\<close> by auto
qed

lemma allHidden_after_stop_body:
  assumes "distinct (map fst (models s))"
  shows "allHidden (hideSpotlights (fold hideAndReset (map fst (models s)) s))"
  using all_models_hidden[OF assms] by (simp add: allHidden_def) (simp add: hideSpotlights_def)


subsection \<open>Scheduling keeps every timer tracked\<close>

lemma tracked_scheduleModel: "tracked s \<Longrightarrow> tracked (scheduleModel p s)"
  by (auto simp: tracked_def scheduleModel_def setTimeout_def split: option.splits)

lemma tracked_scheduleSpotlight: "tracked s \<Longrightarrow> tracked (scheduleSpotlight i s)"
  by (auto simp: tracked_def scheduleSpotlight_def setTimeout_def)

lemma timers_cleared:
  "tracked s \<Longrightarrow> filter (\<lambda>t. tid t \<notin> set (timeoutIds s)) (timers s) = []"
  by (auto simp: tracked_def filter_empty_conv)

lemma sessionInv_start: "sessionInv s \<Longrightarrow> sessionInv (startAnimationSequence s)"
proof (cases "animationSequenceStarted s")
  case True
  assume "sessionInv s"
  with True show ?thesis by (simp add: startAnimationSequence_def)
next
  case False
  assume inv: "sessionInv s"
  define b where
    "b = hideSpotlights (fold hideAndReset
           (map fst (models (clearTimeouts (s\<lparr>animationSequenceStarted := True\<rparr>))))
           (clearTimeouts (s\<lparr>animationSequenceStarted := True\<rparr>)))"
  have tb: "tracked b"
    using inv False by (simp add: b_def tracked_def sessionInv_def)
  have kb: "map fst (models b) = map fst (models s)"
    by (simp add: b_def)
  have eq: "startAnimationSequence s =
            fold scheduleSpotlight [0..<length (spotlights (fold scheduleModel (map fst (models b)) b))]
              (fold scheduleModel (map fst (models b)) b)"
    using False by (simp add: startAnimationSequence_def Let_def b_def)
  have "tracked (startAnimationSequence s)"
    unfolding eq
    by (intro fold_invariant[where P = tracked] tracked_scheduleSpotlight tracked_scheduleModel tb)
  moreover have "map fst (models (startAnimationSequence s)) = map fst (models s)"
    unfolding eq by (simp add: kb)
  ultimately show ?thesis
    using inv by (simp add: sessionInv_def)
qed

lemma sessionInv_stop: "sessionInv s \<Longrightarrow> sessionInv (stopAnimationSequence s)"
proof (cases "animationSequenceStarted s")
  case False
  assume "sessionInv s"
  with False show ?thesis by (simp add: stopAnimationSequence_def)
next
  case True
  assume inv: "sessionInv s"
  define c where "c = clearTimeouts (s\<lparr>animationSequenceStarted := False\<rparr>)"
  have eq: "stopAnimationSequence s = hideSpotlights (fold hideAndReset (map fst (models c)) c)"
    using True by (simp add: stopAnimationSequence_def Let_def c_def)
  have dc: "distinct (map fst (models c))"
    using inv by (simp add: c_def sessionInv_def)
  have tc: "timers c = []"
    using inv timers_cleared[of s] by (simp add: c_def sessionInv_def)
  have "allHidden (stopAnimationSequence s)"
    unfolding eq by (rule allHidden_after_stop_body[OF dc])
  moreover have "timers (stopAnimationSequence s) = []"
    unfolding eq by (simp add: tc)
  moreover have "distinct (map fst (models (stopAnimationSequence s)))"
    unfolding eq using dc by simp
  ultimately show ?thesis
    by (simp add: sessionInv_def tracked_def)
qed

subsection \<open>Firing timers\<close>

lemma lightUp_fields [simp]:
  "timers (lightUp i s) = timers s"
  "timeoutIds (lightUp i s) = timeoutIds s"
  "animationSequenceStarted (lightUp i s) = animationSequenceStarted s"
  "models (lightUp i s) = models s"
  "actions (lightUp i s) = actions s"
  "shown (lightUp i s) = shown s"
  "now (lightUp i s) = now s"
  by (simp_all add: lightUp_def)

lemma seqModelCb_fields [simp]:
  "timers (seqModelCb p s) = timers s"
  "timeoutIds (seqModelCb p s) = timeoutIds s"
  "animationSequenceStarted (seqModelCb p s) = animationSequenceStarted s"
  "spotlights (seqModelCb p s) = spotlights s"
  "now (seqModelCb p s) = now s"
  "map fst (models (seqModelCb p s)) = map fst (models s)"
  by (simp_all add: seqModelCb_def keys_update_present split: option.splits)

lemma seqSpotlightCb_fields [simp]:
  "timers (seqSpotlightCb i s) = timers s"
  "timeoutIds (seqSpotlightCb i s) = timeoutIds s"
  "animationSequenceStarted (seqSpotlightCb i s) = animationSequenceStarted s"
  "models (seqSpotlightCb i s) = models s"
  "actions (seqSpotlightCb i s) = actions s"
  "shown (seqSpotlightCb i s) = shown s"
  "now (seqSpotlightCb i s) = now s"
  by (simp_all add: seqSpotlightCb_def)

lemma runCallback_fields [simp]:
  "timers (runCallback c s) = timers s"
  "timeoutIds (runCallback c s) = timeoutIds s"
  "animationSequenceStarted (runCallback c s) = animationSequenceStarted s"
  "now (runCallback c s) = now s"
  "map fst (models (runCallback c s)) = map fst (models s)"
  by (simp_all add: runCallback_def showModelCb_def keys_update_present
        split: callback.splits option.splits sum.splits)

lemma fire_fields [simp]:
  "timers (fire t s) = timers s"
  "timeoutIds (fire t s) = timeoutIds s"
  "animationSequenceStarted (fire t s) = animationSequenceStarted s"
  "now (fire t s) = max (now s) (due t)"
  "map fst (models (fire t s)) = map fst (models s)"
  by (simp_all add: fire_def)

lemma fold_fire_fields [simp]:
  "timers (fold fire ts s) = timers s"
  "timeoutIds (fold fire ts s) = timeoutIds s"
  "animationSequenceStarted (fold fire ts s) = animationSequenceStarted s"
  "map fst (models (fold fire ts s)) = map fst (models s)"
  by (rule fold_keeps, simp)+

lemma advance_fields [simp]:
  "timers (advance T s) = filter (\<lambda>t. \<not> due t \<le> T) (timers s)"
  "timeoutIds (advance T s) = timeoutIds s"
  "animationSequenceStarted (advance T s) = animationSequenceStarted s"
  "now (advance T s) = max (now s) T"
  "map fst (models (advance T s)) = map fst (models s)"
  by (simp_all add: advance_def)

lemma advance_idle: "timers s = [] \<Longrightarrow> advance T s = s\<lparr>now := max (now s) T\<rparr>"
  by (simp add: advance_def)

lemma sessionInv_advance: "sessionInv s \<Longrightarrow> sessionInv (advance T s)"
proof (cases "animationSequenceStarted s")
  case True
  assume "sessionInv s"
  with True show ?thesis by (auto simp: sessionInv_def tracked_def)
next
  case False
  assume inv: "sessionInv s"
  with False have "timers s = []" by (simp add: sessionInv_def)
  then have "advance T s = s\<lparr>now := max (now s) T\<rparr>" by (rule advance_idle)
  with inv show ?thesis by (simp add: sessionInv_def tracked_def allHidden_def)
qed

lemma sessionInv_step: "sessionInv s \<Longrightarrow> sessionInv (step e s)"
  by (cases e) (simp_all add: onTargetFound_def onTargetLost_def sessionInv_start sessionInv_stop
      sessionInv_advance)

lemma sessionInv_run: "sessionInv s \<Longrightarrow> sessionInv (run evs s)"
  unfolding run_def by (rule fold_invariant[where P = sessionInv]) (auto intro: sessionInv_step)


subsection \<open>Loading in AR mode\<close>

lemma in_updateD: "e \<in> set (AList.update k v al) \<Longrightarrow> e = (k, v) \<or> e \<in> set al"
  by (induction al) (auto split: if_splits)

lemma showModelAR_off: "\<not> testMode s \<Longrightarrow> mindarThree s \<Longrightarrow> showModelAR p d s = s"
  by (simp add: showModelAR_def)

lemma loadModelAR_fields:
  assumes "\<not> testMode s" and "mindarThree s"
  shows "timers (snd (loadModelAR h p opts s)) = timers s"
    and "testMode (snd (loadModelAR h p opts s)) = testMode s"
    and "mindarThree (snd (loadModelAR h p opts s)) = mindarThree s"
    and "animationSequenceStarted (snd (loadModelAR h p opts s)) = animationSequenceStarted s"
    and "spotlights (snd (loadModelAR h p opts s)) = spotlights s"
    and "timeoutIds (snd (loadModelAR h p opts s)) = timeoutIds s"
    and "scene (snd (loadModelAR h p opts s)) = scene s"
    and "anchorGroup (snd (loadModelAR h p opts s)) = anchorGroup s"
    and "shown (snd (loadModelAR h p opts s)) = shown s"
    and "now (snd (loadModelAR h p opts s)) = now s"
    and "models (snd (loadModelAR h p opts s)) =
           (case decode h p of
              Inl e \<Rightarrow> models s
            | Inr anims \<Rightarrow>
                AList.update p \<lparr>object = \<lparr>oid = alloc s, visible = optVisible opts\<rparr>,
                                options = opts, animations = anims\<rparr> (models s))"
  using assms
  by (simp_all add: loadModelAR_def loadModelWith_def Let_def showModelAR_off split: sum.splits)

lemma loadModelWith_AR:
  assumes "loadingAR s"
  shows "loadingAR (snd (loadModelAR h p \<lparr>optVisible = False, optDelay = d\<rparr> s))"
proof -
  from assms have m: "\<not> testMode s" "mindarThree s" by (simp_all add: loadingAR_def)
  show ?thesis
    using assms
    by (auto simp: loadingAR_def allHidden_def loadModelAR_fields[OF m] distinct_update
        dest!: in_updateD split: sum.splits)
qed

lemma arEntry_loading:
  assumes "loadingAR s"
  shows "loadingAR (snd (arEntry h c s))"
proof -
  obtain r s1 where l: "loadModelAR h (cfgPath c) \<lparr>optVisible = False, optDelay = cfgDelay c\<rparr> s = (r, s1)"
    by (cases "loadModelAR h (cfgPath c) \<lparr>optVisible = False, optDelay = cfgDelay c\<rparr> s")
  have s1: "loadingAR s1"
    using loadModelWith_AR[OF assms, of h "cfgPath c" "cfgDelay c"] l by simp
  show ?thesis
    using s1 l
    by (cases r)
       (auto simp: arEntry_def displayErrorMessage_def loadingAR_def allHidden_def Let_def
          split: option.splits)
qed

lemma loadEntries_loading:
  assumes "loadingAR s"
  shows "loadingAR (snd (loadEntries (arEntry h) cfgs s))"
  using assms
proof (induction cfgs arbitrary: s)
  case Nil
  then show ?case by simp
next
  case (Cons c cfgs)
  show ?case
  proof (cases "cfgEnabled c")
    case False
    with Cons show ?thesis by simp
  next
    case True
    obtain e s1 where b: "arEntry h c s = (e, s1)" by (cases "arEntry h c s")
    have "loadingAR s1" using arEntry_loading[OF Cons.prems, of h c] b by simp
    with Cons.IH[of s1] True b show ?thesis
      by (cases e) simp_all
  qed
qed

lemma sessionInv_initializeAR:
  assumes "initializeAR h cfgs pageLoad = (None, s0)"
  shows "sessionInv s0"
proof -
  have t: "targetOk h"
    using assms by (auto simp: initializeAR_def split: if_splits)
  have "loadingAR (pageLoad\<lparr>mindarThree := True, anchorGroup := [], spotlights := [],
           timeoutIds := [], animationSequenceStarted := False\<rparr>)"
    by (simp add: loadingAR_def pageLoad_def allHidden_def)
  from loadEntries_loading[OF this, of h cfgs] assms t
  have "loadingAR s0" by (simp add: initializeAR_def)
  then show ?thesis
    by (simp add: loadingAR_def sessionInv_def tracked_def)
qed

subsection \<open>After a stop\<close>

lemma waits_idle:
  assumes "timers s = []"
  shows "\<exists>T. run (map Wait ds) s = s\<lparr>now := T\<rparr>"
  using assms
proof (induction ds arbitrary: s)
  case Nil
  have "s = s\<lparr>now := now s\<rparr>" by simp
  then show ?case unfolding run_def by (metis fold_simps(1) list.simps(8))
next
  case (Cons d ds)
  have a: "advance (now s + d) s = s\<lparr>now := max (now s) (now s + d)\<rparr>"
    using Cons.prems by (rule advance_idle)
  have "timers (advance (now s + d) s) = []" using Cons.prems by simp
  from Cons.IH[OF this] obtain T where
    "run (map Wait ds) (advance (now s + d) s) = (advance (now s + d) s)\<lparr>now := T\<rparr>" by blast
  then have "run (map Wait (d # ds)) s = s\<lparr>now := T\<rparr>"
    by (simp add: run_def a)
  then show ?case by blast
qed

lemma guarded_callbacks_idle:
  "\<not> animationSequenceStarted s \<Longrightarrow>
   runCallback (SeqModelCb p) s = s \<and> runCallback (SeqSpotlightCb i) s = s"
  by (simp add: runCallback_def seqModelCb_def seqSpotlightCb_def)

subsection \<open>Sample runs\<close>

lemma decode_glb: "decode demoHost ''a.glb'' = Inr []"
  by (simp add: decode_def demoHost_def endsWith_def toLowerCase_def toLowerChar_def)

lemma oneLoaded_init: "initializeAR demoHost [entry ''a.glb'' 100] pageLoad = (None, oneLoaded)"
  by (simp add: initializeAR_def arEntry_def loadModelAR_def loadModelWith_def decode_glb
      showModelAR_def Let_def entry_def pageLoad_def oneLoaded_def)
     (simp add: demoHost_def)

lemma oneLoaded_started:
  "startAnimationSequence oneLoaded =
     oneLoaded\<lparr>animationSequenceStarted := True, timeoutIds := [1, 2],
       timers := [\<lparr>tid = 1, due = 100, cb = SeqModelCb ''a.glb''\<rparr>,
                  \<lparr>tid = 2, due = 100, cb = SeqSpotlightCb 0\<rparr>],
       nextTimer := 3\<rparr>"
  by (simp add: startAnimationSequence_def clearTimeouts_def hideAndReset_def forActions_def
      hideSpotlights_def scheduleModel_def scheduleSpotlight_def setTimeout_def setVisible_def
      oneLoaded_def Let_def)

section \<open>Stopping the sequence\<close>

text \<open>
  In every state that an AR session begun on the page as loaded can reach (a successful
  \<open>initializeAR\<close>, then any tracking events and waits), once
  \<open>stopAnimationSequence\<close> has returned no timer is pending, no model and no spotlight
  is visible, and any further passing of time changes nothing but the clock. Moreover, in
  any state whatever, a reveal callback of the sequence that runs after
  \<open>stopAnimationSequence\<close> has returned leaves the state as it is.
\<close>

lemma stop_cancels_every_reveal:
  assumes "initializeAR h cfgs pageLoad = (None, s0)"
  shows "timers (stopAnimationSequence (run evs s0)) = [] \<and>
         allHidden (stopAnimationSequence (run evs s0)) \<and>
         (\<forall>ds. \<exists>T. run (map Wait ds) (stopAnimationSequence (run evs s0)) =
                  (stopAnimationSequence (run evs s0))\<lparr>now := T\<rparr>) \<and>
         (\<forall>s p i. runCallback (SeqModelCb p) (stopAnimationSequence s) = stopAnimationSequence s \<and>
                  runCallback (SeqSpotlightCb i) (stopAnimationSequence s) = stopAnimationSequence s)"
proof -
  have "sessionInv (stopAnimationSequence (run evs s0))"
    by (intro sessionInv_stop sessionInv_run sessionInv_initializeAR[OF assms])
  then have t: "timers (stopAnimationSequence (run evs s0)) = []"
    and h: "allHidden (stopAnimationSequence (run evs s0))"
    by (simp_all add: sessionInv_def)
  show ?thesis
    using t h waits_idle[OF t] guarded_callbacks_idle[OF not_started_after_stop] by blast
qed

lemma stop_cancels_every_reveal_sample:
  "initializeAR demoHost [entry ''a.glb'' 100] pageLoad = (None, oneLoaded) \<and>
   map due (timers (run [TargetFound, Wait 50] oneLoaded)) = [100, 100] \<and>
   timers (stopAnimationSequence (run [TargetFound, Wait 50] oneLoaded)) = []"
proof -
  have "map due (timers (run [TargetFound, Wait 50] oneLoaded)) = [100, 100]"
    by (simp add: run_def onTargetFound_def oneLoaded_started) (simp add: oneLoaded_def)
  then show ?thesis
    using stop_cancels_every_reveal[OF oneLoaded_init, of "[TargetFound, Wait 50]"] oneLoaded_init
    by simp
qed

subsection \<open>A session in AR mode after a session in test mode\<close>

text \<open>In test mode the two variants of \<open>showModel\<close>, and so of \<open>loadModel\<close>,
  agree: \<open>loadTestModels\<close> stands for the test mode of both scripts.\<close>

lemma showModelAR_test: "testMode s \<Longrightarrow> showModelAR p d s = showModel p d s"
  by (simp add: showModelAR_def showModel_def)

lemma loadModelAR_test:
  "testMode s \<Longrightarrow> loadModelAR h p opts s = loadModel h p opts s"
  by (simp add: loadModelAR_def loadModel_def loadModelWith_def Let_def showModelAR_def
      showModel_def split: sum.splits)

lemma decode_ball: "decode demoHost ''dis-ball.glb'' = Inr []"
  by (simp add: decode_def demoHost_def endsWith_def toLowerCase_def toLowerChar_def)

lemma ballTest_start:
  "startAR demoHost ballList (setTestMode True pageLoad) = (None, ballTest)"
  by (simp add: startAR_def setTestMode_def clearModels_def stopResetCycle_def
      loadTestModels_def testEntry_def loadModel_def loadModelWith_def decode_ball
      showModel_def setTimeout_def Let_def entry_def pageLoad_def ballList_def ballTest_def
      spotlightTimers_def startResetCycle_def update_conv')

lemma ballTest_stopped:
  "setTestMode False (stopAR (advance 1000 ballTest)) =
     ballTest\<lparr>now := 1000, models := [], cycleTimer := None, scene := None,
       testMode := False\<rparr>"
  by (simp add: setTestMode_def stopAR_def clearModels_def stopResetCycle_def advance_def
      ballTest_def Let_def)

lemma ballAR_start:
  "startAR demoHost ballList (setTestMode False (stopAR (advance 1000 ballTest))) =
     (None, ballAR)"
  unfolding ballTest_stopped
  by (simp add: startAR_def clearModels_def stopResetCycle_def initializeAR_def arEntry_def
      loadModelAR_def loadModelWith_def decode_ball showModelAR_def Let_def entry_def
      ballList_def ballTest_def ballAR_def)
     (simp add: demoHost_def)

lemma ballAR_found:
  "run [TargetFound, Wait 500] ballAR =
     ballAR\<lparr>animationSequenceStarted := True, timeoutIds := [3], now := 1500,
       timers := [\<lparr>tid = 1, due = 5000, cb = ShowModelCb ''dis-ball.glb''\<rparr>,
                  \<lparr>tid = 3, due = 6000, cb = SeqModelCb ''dis-ball.glb''\<rparr>],
       nextTimer := 4\<rparr>"
  by (simp add: run_def onTargetFound_def run_defs clearTimeout_def ballAR_def)

lemma ballAR_lost:
  "run [TargetFound, Wait 500, TargetLost] ballAR =
     ballAR\<lparr>now := 1500, nextTimer := 4\<rparr>"
proof -
  have "run [TargetFound, Wait 500, TargetLost] ballAR =
          onTargetLost (run [TargetFound, Wait 500] ballAR)"
    by (simp add: run_def)
  then show ?thesis
    unfolding ballAR_found
    by (simp add: onTargetLost_def stopAnimationSequence_def clearTimeouts_def clearTimeout_def
        hideAndReset_def forActions_def hideSpotlights_def setVisible_def Let_def ballAR_def)
qed

text \<open>
  C1 fails in an AR session that follows a session in test mode. The page is started in
  test mode with the single entry \<open>dis-ball.glb\<close> of delay 5000, stopped after one
  second, switched to AR mode and started again. \<open>stopAR\<close> and \<open>clearModels\<close>
  cancel no timer, so the reveal timer that \<open>showModel\<close> set in test mode is still
  pending, and it is in no list that \<open>stopAnimationSequence\<close> clears. The target is
  found at 1000 and lost at 1500: after \<open>stopAnimationSequence\<close> has returned that
  timer is pending, at 4500 the model is hidden, and at 5000 the callback finds the path in
  the registry again and makes the model visible while the sequence is stopped.
\<close>

theorem stale_reveal_after_stop:
  "startAR demoHost ballList (setTestMode True pageLoad) = (None, ballTest) \<and>
   startAR demoHost ballList (setTestMode False (stopAR (advance 1000 ballTest))) =
     (None, ballAR) \<and>
   timers (stopAnimationSequence (run [TargetFound, Wait 500] ballAR)) =
     [\<lparr>tid = 1, due = 5000, cb = ShowModelCb ''dis-ball.glb''\<rparr>] \<and>
   visibilities (run [TargetFound, Wait 500, TargetLost, Wait 3000] ballAR) =
     [(''dis-ball.glb'', False)] \<and>
   visibilities (run [TargetFound, Wait 500, TargetLost, Wait 4000] ballAR) =
     [(''dis-ball.glb'', True)] \<and>
   \<not> animationSequenceStarted (run [TargetFound, Wait 500, TargetLost, Wait 4000] ballAR) \<and>
   shown (run [TargetFound, Wait 500, TargetLost, Wait 4000] ballAR) =
     [(5000, ''dis-ball.glb'')]"
proof -
  have l: "stopAnimationSequence (run [TargetFound, Wait 500] ballAR) =
             ballAR\<lparr>now := 1500, nextTimer := 4\<rparr>"
    using ballAR_lost by (simp add: run_def onTargetLost_def)
  have t: "timers (stopAnimationSequence (run [TargetFound, Wait 500] ballAR)) =
     [\<lparr>tid = 1, due = 5000, cb = ShowModelCb ''dis-ball.glb''\<rparr>]"
    unfolding l by (simp add: ballAR_def)
  have w: "run [TargetFound, Wait 500, TargetLost, Wait d] ballAR =
             advance (1500 + d) (ballAR\<lparr>now := 1500, nextTimer := 4\<rparr>)" for d
  proof -
    have "run [TargetFound, Wait 500, TargetLost, Wait d] ballAR =
            step (Wait d) (run [TargetFound, Wait 500, TargetLost] ballAR)"
      by (simp add: run_def)
    then show ?thesis unfolding ballAR_lost by simp
  qed
  have a: "visibilities (run [TargetFound, Wait 500, TargetLost, Wait 3000] ballAR) =
     [(''dis-ball.glb'', False)]"
    unfolding w by (simp add: advance_def ballAR_def visibilities_def)
  have b: "visibilities (run [TargetFound, Wait 500, TargetLost, Wait 4000] ballAR) =
     [(''dis-ball.glb'', True)]"
    and c: "\<not> animationSequenceStarted (run [TargetFound, Wait 500, TargetLost, Wait 4000] ballAR)"
    and d: "shown (run [TargetFound, Wait 500, TargetLost, Wait 4000] ballAR) =
     [(5000, ''dis-ball.glb'')]"
    unfolding w
    by (simp_all add: advance_def fire_def runCallback_def showModelCb_def forActions_def
        setVisible_def ballAR_def visibilities_def)
  from ballTest_start ballAR_start t a b c d show ?thesis by simp
qed


section \<open>Starting twice\<close>

text \<open>
  C10. \<open>startAnimationSequence\<close> on a sequence that is already running returns the
  state unchanged, so a second call right after a first one, as a duplicate
  target-found event makes, leaves the state of the single call.
\<close>

theorem start_while_running_is_noop:
  "startAnimationSequence (startAnimationSequence s) = startAnimationSequence s \<and>
   onTargetFound (onTargetFound s) = onTargetFound s \<and>
   (animationSequenceStarted s \<longrightarrow> startAnimationSequence s = s \<and> onTargetFound s = s)"
proof -
  have "animationSequenceStarted s \<Longrightarrow> startAnimationSequence s = s"
    by (simp add: startAnimationSequence_def)
  moreover have "startAnimationSequence (startAnimationSequence s) = startAnimationSequence s"
    using started_after_start[of s]
    by (simp add: startAnimationSequence_def[of "startAnimationSequence s"])
  ultimately show ?thesis by (simp add: onTargetFound_def)
qed

theorem start_while_running_is_noop_witness:
  "animationSequenceStarted (startAnimationSequence oneLoaded) \<and>
   map due (timers (startAnimationSequence oneLoaded)) = [100, 100] \<and>
   startAnimationSequence (startAnimationSequence oneLoaded) = startAnimationSequence oneLoaded"
proof -
  have "map due (timers (startAnimationSequence oneLoaded)) = [100, 100]"
    by (simp add: oneLoaded_started)
  then show ?thesis
    using start_while_running_is_noop[of "startAnimationSequence oneLoaded"] by simp
qed

section \<open>Show and hide\<close>

lemma startAction_twice [simp]: "startAction (startAction a) = startAction a"
  by (simp add: startAction_def play_def reset_def)


lemma setVisible_twice [simp]: "setVisible b (setVisible c m) = setVisible b m"
  by (simp add: setVisible_def)





section \<open>Entries with no delay\<close>

lemma decode_fbx: "decode demoHost ''a.fbx'' = Inr [''walk'']"
  by (simp add: decode_def demoHost_def endsWith_def toLowerCase_def toLowerChar_def)

lemma testLoaded_eq: "loadTestModels demoHost [entry ''a.glb'' d] testPage = testLoaded d"
  by (simp add: loadTestModels_def testEntry_def loadModel_def loadModelWith_def decode_glb
      showModel_def setTimeout_def Let_def entry_def testPage_def pageLoad_def testLoaded_def
      spotlightTimers_def startResetCycle_def update_conv')

text \<open>
  C3. \<open>loadModel\<close> sets no timer for an entry loaded hidden with delay zero. In test
  mode the single enabled entry \<open>a.glb\<close> with delay 0 and \<open>visible: false\<close> is
  therefore invisible, and no reveal has happened, at every time before the first expiry of
  the reset cycle, 18000 ms after \<open>loadTestModels\<close>. That expiry calls
  \<open>resetModels\<close>, which does schedule the entry: from then until the next expiry it
  is visible, and its first reveal is at 18000.
\<close>

theorem zero_delay_entry_not_revealed:
  "timers (snd (loadModel h p \<lparr>optVisible = False, optDelay = 0\<rparr> s)) = timers s \<and>
   (\<forall>T. T < cycleInterval \<longrightarrow>
      visibilities (advance T (loadTestModels demoHost [entry ''a.glb'' 0] testPage)) =
        [(''a.glb'', False)] \<and>
      shown (advance T (loadTestModels demoHost [entry ''a.glb'' 0] testPage)) = []) \<and>
   (\<forall>T. cycleInterval \<le> T \<and> T < 2 * cycleInterval \<longrightarrow>
      visibilities
        (advance T (cycleExpiry
           (advance cycleInterval (loadTestModels demoHost [entry ''a.glb'' 0] testPage)))) =
        [(''a.glb'', True)] \<and>
      shown
        (advance T (cycleExpiry
           (advance cycleInterval (loadTestModels demoHost [entry ''a.glb'' 0] testPage)))) =
        [(cycleInterval, ''a.glb'')])"
proof -
  have "timers (snd (loadModel h p \<lparr>optVisible = False, optDelay = 0\<rparr> s)) = timers s"
    by (simp add: loadModel_def loadModelWith_def Let_def split: sum.splits)
  moreover have "visibilities (advance T (testLoaded 0)) = [(''a.glb'', False)]"
    and "shown (advance T (testLoaded 0)) = []" for T
    by (simp_all add: testLoaded_def advance_def fire_def runCallback_def lightUp_def
        visibilities_def)
  moreover have "visibilities (advance T (cycleExpiry (advance cycleInterval (testLoaded 0)))) =
                   [(''a.glb'', True)]"
    and "shown (advance T (cycleExpiry (advance cycleInterval (testLoaded 0)))) =
           [(cycleInterval, ''a.glb'')]" if "cycleInterval \<le> T" for T
  proof -
    have e: "cycleExpiry (advance cycleInterval (testLoaded 0)) =
               (testLoaded 0)\<lparr>now := 18000,
                  spotlights := [\<lparr>spotVisible = False, spotDelay = 500, modelPath = ''a.glb''\<rparr>],
                  timers := [\<lparr>tid = 3, due = 18000, cb = ShowModelCb ''a.glb''\<rparr>,
                             \<lparr>tid = 4, due = 18500, cb = SpotlightCb 0\<rparr>],
                  nextTimer := 5\<rparr>"
      by (simp add: cycleExpiry_def cycleInterval_def resetModelsPatched_def resetModels_def
          hideAllModels_def hideModel_def forActions_def recreateMixer_def showAgain_def
          showModel_def setTimeout_def setVisible_def Let_def spotlightTimers_def
          testLoaded_def advance_def fire_def runCallback_def lightUp_def)
    from that have T: "18000 \<le> T" by (simp add: cycleInterval_def)
    show "visibilities (advance T (cycleExpiry (advance cycleInterval (testLoaded 0)))) =
                   [(''a.glb'', True)]"
      and "shown (advance T (cycleExpiry (advance cycleInterval (testLoaded 0)))) =
           [(cycleInterval, ''a.glb'')]"
      unfolding e using T
      by (simp_all add: testLoaded_def advance_def fire_def runCallback_def lightUp_def
          visibilities_def showModelCb_def forActions_def setVisible_def cycleInterval_def)
  qed
  ultimately show ?thesis by (simp add: testLoaded_eq)
qed

theorem zero_delay_entry_not_revealed_witness:
  "(17999::nat) < cycleInterval \<and>
   visibilities (advance 17999 (loadTestModels demoHost [entry ''a.glb'' 0] testPage)) =
     [(''a.glb'', False)] \<and>
   cycleInterval \<le> 18000 \<and> (18000::nat) < 2 * cycleInterval \<and>
   visibilities
     (advance 18000 (cycleExpiry
        (advance cycleInterval (loadTestModels demoHost [entry ''a.glb'' 0] testPage)))) =
     [(''a.glb'', True)]"
proof -
  have a: "(17999::nat) < cycleInterval" and b: "cycleInterval \<le> 18000"
    and c: "(18000::nat) < 2 * cycleInterval"
    by (simp_all add: cycleInterval_def)
  from zero_delay_entry_not_revealed[of demoHost "''a.glb''" testPage] a b c
  show ?thesis by blast
qed

section \<open>Loading a path twice\<close>

lemma mainLoadModel_cached:
  "map_of (mModels s) p = Some e \<Longrightarrow> mainLoadModel h p opts s = (Inr e, s)"
  by (simp add: mainLoadModel_def)

text \<open>
  C5. The \<open>loadModel\<close> of the later variants has no test for a path that is already
  registered: a second call for \<open>a.fbx\<close> fetches the file again and stores a new
  object, a new mixer and new actions under the path. (The \<open>loadModel\<close> of
  \<open>js/main.js\<close> returns the registered entry and leaves the state alone, lemma
  \<open>mainLoadModel_cached\<close>.)
\<close>

theorem loadModel_twice_reloads:
  "fetched (snd (loadModel demoHost ''a.fbx'' \<lparr>optVisible = True, optDelay = 0\<rparr> testPage)) =
     [''a.fbx''] \<and>
   fst (loadModel demoHost ''a.fbx'' \<lparr>optVisible = True, optDelay = 0\<rparr> testPage) =
     Inr \<lparr>object = \<lparr>oid = 0, visible = True\<rparr>,
           options = \<lparr>optVisible = True, optDelay = 0\<rparr>, animations = [''walk'']\<rparr> \<and>
   mixers (snd (loadModel demoHost ''a.fbx'' \<lparr>optVisible = True, optDelay = 0\<rparr> testPage)) =
     [(''a.fbx'', 1)] \<and>
   fetched (snd (loadModel demoHost ''a.fbx'' \<lparr>optVisible = True, optDelay = 0\<rparr>
     (snd (loadModel demoHost ''a.fbx'' \<lparr>optVisible = True, optDelay = 0\<rparr> testPage)))) =
     [''a.fbx'', ''a.fbx''] \<and>
   fst (loadModel demoHost ''a.fbx'' \<lparr>optVisible = True, optDelay = 0\<rparr>
     (snd (loadModel demoHost ''a.fbx'' \<lparr>optVisible = True, optDelay = 0\<rparr> testPage))) =
     Inr \<lparr>object = \<lparr>oid = 2, visible = True\<rparr>,
           options = \<lparr>optVisible = True, optDelay = 0\<rparr>, animations = [''walk'']\<rparr> \<and>
   mixers (snd (loadModel demoHost ''a.fbx'' \<lparr>optVisible = True, optDelay = 0\<rparr>
     (snd (loadModel demoHost ''a.fbx'' \<lparr>optVisible = True, optDelay = 0\<rparr> testPage)))) =
     [(''a.fbx'', 3)]"
  by (simp add: loadModel_def loadModelWith_def decode_fbx Let_def testPage_def pageLoad_def)

section \<open>Clearing the registry\<close>

text \<open>
  C6. \<open>clearModels\<close> empties the three registry objects and drops the cycle timer;
  it leaves the timer queue and the scene as they are. After \<open>loadTestModels\<close> for
  the entry \<open>a.glb\<close> with delay 100 and then \<open>clearModels\<close>, the reveal
  callback of \<open>a.glb\<close> is still pending, the object is still a child of the scene,
  and when the clock reaches 100 the callback runs and throws a \<open>TypeError\<close> on
  the missing registry entry.
\<close>

theorem clearModels_keeps_callbacks:
  "timers (clearModels s) = timers s \<and> scene (clearModels s) = scene s \<and>
   map cb (timers (clearModels (loadTestModels demoHost [entry ''a.glb'' 100] testPage))) =
     [ShowModelCb ''a.glb'', SpotlightCb 0] \<and>
   scene (clearModels (loadTestModels demoHost [entry ''a.glb'' 100] testPage)) =
     Some [ModelNode 0, SpotlightNode 0] \<and>
   uncaught (advance 100 (clearModels (loadTestModels demoHost [entry ''a.glb'' 100] testPage))) =
     [TypeError]"
proof -
  have "map cb (timers (clearModels (testLoaded 100))) = [ShowModelCb ''a.glb'', SpotlightCb 0] \<and>
        scene (clearModels (testLoaded 100)) = Some [ModelNode 0, SpotlightNode 0] \<and>
        uncaught (advance 100 (clearModels (testLoaded 100))) = [TypeError]"
    by (simp add: testLoaded_def clearModels_def stopResetCycle_def advance_def fire_def
        runCallback_def showModelCb_def)
  moreover have "timers (clearModels s) = timers s \<and> scene (clearModels s) = scene s"
    by (simp add: clearModels_def stopResetCycle_def)
  ultimately show ?thesis by (simp add: testLoaded_eq)
qed

section \<open>A load that fails\<close>

lemma loadModel_frame:
  "loadModel h p opts (s\<lparr>scene := x, fetched := f\<rparr>) =
     (fst (loadModel h p opts s), (snd (loadModel h p opts s))\<lparr>scene := x, fetched := f @ [p]\<rparr>)"
  by (simp add: loadModel_def loadModelWith_def Let_def showModel_def setTimeout_def split: sum.splits)

lemma loadModel_fields [simp]:
  "scene (snd (loadModel h p opts s)) = scene s"
  "spotlights (snd (loadModel h p opts s)) = spotlights s"
  "now (snd (loadModel h p opts s)) = now s"
  "shown (snd (loadModel h p opts s)) = shown s"
  "fetched (snd (loadModel h p opts s)) = fetched s @ [p]"
  by (simp_all add: loadModel_def loadModelWith_def Let_def showModel_def setTimeout_def split: sum.splits)

lemma loadModel_result:
  "fst (loadModel h p opts s) =
     (case decode h p of
        Inl e \<Rightarrow> Inl e
      | Inr anims \<Rightarrow> Inr \<lparr>object = \<lparr>oid = alloc s, visible = optVisible opts\<rparr>,
                             options = opts, animations = anims\<rparr>)"
  by (simp add: loadModel_def loadModelWith_def Let_def split: sum.splits)

lemma loadModel_failed:
  "decode h p = Inl e \<Longrightarrow> loadModel h p opts s = (Inl e, s\<lparr>fetched := fetched s @ [p]\<rparr>)"
  by (simp add: loadModel_def loadModelWith_def)

lemma testEntry_failed:
  assumes "decode h (cfgPath c) = Inl e" and "scene s = Some ns"
  shows "testEntry h c s =
           (None, s\<lparr>fetched := fetched s @ [cfgPath c],
                     scene := Some (ns @ [ErrorPlane (''Failed to load '' @ cfgPath c)])\<rparr>)"
  using assms by (simp add: testEntry_def loadModel_failed displayErrorMessage_def)

lemma testEntry_loaded:
  assumes "decode h (cfgPath c) = Inr anims" and "scene s = Some ns"
  shows "testEntry h c s =
     (None,
      if includesStr (cfgPath c) ''dis-ball'' then
        (snd (loadModel h (cfgPath c) \<lparr>optVisible = cfgVisible c, optDelay = cfgDelay c\<rparr> s))
          \<lparr>scene := Some (ns @ [ModelNode (alloc s)])\<rparr>
      else
        (snd (loadModel h (cfgPath c) \<lparr>optVisible = cfgVisible c, optDelay = cfgDelay c\<rparr> s))
          \<lparr>scene := Some (ns @ [ModelNode (alloc s), SpotlightNode (length (spotlights s))]),
           spotlights := spotlights s @
             [\<lparr>spotVisible = False, spotDelay = cfgDelay c + 500, modelPath = cfgPath c\<rparr>]\<rparr>)"
proof -
  obtain r s1 where l:
    "loadModel h (cfgPath c) \<lparr>optVisible = cfgVisible c, optDelay = cfgDelay c\<rparr> s = (r, s1)"
    by (cases "loadModel h (cfgPath c) \<lparr>optVisible = cfgVisible c, optDelay = cfgDelay c\<rparr> s")
  have r: "r = Inr \<lparr>object = \<lparr>oid = alloc s, visible = cfgVisible c\<rparr>,
                    options = \<lparr>optVisible = cfgVisible c, optDelay = cfgDelay c\<rparr>,
                    animations = anims\<rparr>"
    using loadModel_result[of h "cfgPath c" "\<lparr>optVisible = cfgVisible c, optDelay = cfgDelay c\<rparr>" s]
      l assms(1) by simp
  have sc: "scene s1 = Some ns" and sp: "spotlights s1 = spotlights s"
    using loadModel_fields(1,2)[of h "cfgPath c" "\<lparr>optVisible = cfgVisible c, optDelay = cfgDelay c\<rparr>" s]
      l assms(2) by simp_all
  show ?thesis
    by (simp add: testEntry_def l r sc sp Let_def)
qed

lemma testEntry_frame:
  assumes "decode h (cfgPath c) = Inr anims" and "scene s = Some ns'"
  shows "\<exists>new. (\<forall>n \<in> set new. \<not> isErrorPlane n) \<and>
           fst (testEntry h c s) = None \<and>
           scene (snd (testEntry h c s)) = Some (ns' @ new) \<and>
           testEntry h c (s\<lparr>scene := Some ns, fetched := f\<rparr>) =
             (None, (snd (testEntry h c s))\<lparr>scene := Some (ns @ new),
                                               fetched := f @ [cfgPath c]\<rparr>)"
proof -
  have s': "scene (s\<lparr>scene := Some ns, fetched := f\<rparr>) = Some ns" by simp
  show ?thesis
  proof (cases "includesStr (cfgPath c) ''dis-ball''")
    case True
    show ?thesis
      apply (rule exI[of _ "[ModelNode (alloc s)]"])
      using True
      by (simp add: testEntry_loaded[OF assms] testEntry_loaded[OF assms(1) s'] loadModel_frame)
  next
    case False
    show ?thesis
      apply (rule exI[of _ "[ModelNode (alloc s), SpotlightNode (length (spotlights s))]"])
      using False
      by (simp add: testEntry_loaded[OF assms] testEntry_loaded[OF assms(1) s'] loadModel_frame)
  qed
qed

lemma sameRun_loaded:
  assumes "decode h (cfgPath c) = Inr anims" and "sameRun s s'"
  shows "fst (testEntry h c s) = None \<and> fst (testEntry h c s') = None \<and>
         sameRun (snd (testEntry h c s)) (snd (testEntry h c s'))"
proof -
  from assms(2) obtain ns ns' f where
    s: "s = s'\<lparr>scene := Some ns, fetched := f\<rparr>" and sc: "scene s' = Some ns'" and
    fl: "filter (\<lambda>n. \<not> isErrorPlane n) ns = filter (\<lambda>n. \<not> isErrorPlane n) ns'"
    unfolding sameRun_def by blast
  from testEntry_frame[OF assms(1) sc, where ns = ns and f = f] obtain new where
    n: "\<forall>n \<in> set new. \<not> isErrorPlane n" and
    e: "fst (testEntry h c s') = None" and
    sn: "scene (snd (testEntry h c s')) = Some (ns' @ new)" and
    t: "testEntry h c (s'\<lparr>scene := Some ns, fetched := f\<rparr>) =
          (None, (snd (testEntry h c s'))\<lparr>scene := Some (ns @ new),
                                             fetched := f @ [cfgPath c]\<rparr>)"
    by blast
  have "sameRun ((snd (testEntry h c s'))\<lparr>scene := Some (ns @ new),
                                              fetched := f @ [cfgPath c]\<rparr>)
          (snd (testEntry h c s'))"
    unfolding sameRun_def
    apply (rule exI[of _ "ns @ new"], rule exI[of _ "ns' @ new"], rule exI[of _ "f @ [cfgPath c]"])
    using sn fl by simp
  with e t s show ?thesis by simp
qed

lemma sameRun_failed:
  assumes "decode h (cfgPath c) = Inl e" and "sameRun s s'"
  shows "fst (testEntry h c s) = None \<and> sameRun (snd (testEntry h c s)) s'"
proof -
  from assms(2) obtain ns ns' f where
    s: "s = s'\<lparr>scene := Some ns, fetched := f\<rparr>" and sc: "scene s' = Some ns'" and
    fl: "filter (\<lambda>n. \<not> isErrorPlane n) ns = filter (\<lambda>n. \<not> isErrorPlane n) ns'"
    unfolding sameRun_def by blast
  have sn: "scene s = Some ns" using s by simp
  have "sameRun (s\<lparr>fetched := fetched s @ [cfgPath c],
                    scene := Some (ns @ [ErrorPlane (''Failed to load '' @ cfgPath c)])\<rparr>) s'"
    unfolding sameRun_def
    apply (rule exI[of _ "ns @ [ErrorPlane (''Failed to load '' @ cfgPath c)]"],
           rule exI[of _ ns'], rule exI[of _ "f @ [cfgPath c]"])
    using s sc fl by simp
  then show ?thesis
    by (simp add: testEntry_failed[OF assms(1) sn])
qed

lemma loadEntries_sameRun:
  assumes "sameRun s s'"
  shows "fst (loadEntries (testEntry h) cfgs s) = None \<and>
         fst (loadEntries (testEntry h) (filter (loads h) cfgs) s') = None \<and>
         sameRun (snd (loadEntries (testEntry h) cfgs s))
                 (snd (loadEntries (testEntry h) (filter (loads h) cfgs) s'))"
  using assms
proof (induction cfgs arbitrary: s s')
  case Nil
  then show ?case by simp
next
  case (Cons c cfgs)
  show ?case
  proof (cases "cfgEnabled c")
    case False
    with Cons show ?thesis by simp
  next
    case True
    show ?thesis
    proof (cases "decode h (cfgPath c)")
      case (Inl e)
      then have nl: "\<not> loads h c" by (simp add: loads_def)
      from sameRun_failed[OF Inl Cons.prems]
      have f: "fst (testEntry h c s) = None" and r: "sameRun (snd (testEntry h c s)) s'"
        by simp_all
      obtain s1 where t: "testEntry h c s = (None, s1)"
        using f by (cases "testEntry h c s") simp
      from Cons.IH[of s1 s'] r t True nl show ?thesis by simp
    next
      case (Inr anims)
      then have l: "loads h c" by (simp add: loads_def)
      from sameRun_loaded[OF Inr Cons.prems]
      have f: "fst (testEntry h c s) = None" and f': "fst (testEntry h c s') = None"
        and r: "sameRun (snd (testEntry h c s)) (snd (testEntry h c s'))"
        by simp_all
      obtain s1 where t: "testEntry h c s = (None, s1)"
        using f by (cases "testEntry h c s") simp
      obtain s1' where t': "testEntry h c s' = (None, s1')"
        using f' by (cases "testEntry h c s'") simp
      from Cons.IH[of s1 s1'] r t t' True l show ?thesis by simp
    qed
  qed
qed


lemma fold_commute_update:
  assumes "\<And>x s. f x (u s) = u (f x s)"
  shows "fold f xs (u s) = u (fold f xs s)"
  using assms by (induction xs arbitrary: s) simp_all

lemma spotlightTimers_frame:
  "spotlightTimers mk (s\<lparr>scene := x, fetched := f\<rparr>) =
     (spotlightTimers mk s)\<lparr>scene := x, fetched := f\<rparr>"
  unfolding spotlightTimers_def
  using fold_commute_update[where u = "\<lambda>s. s\<lparr>scene := x, fetched := f\<rparr>"
      and f = "\<lambda>i s'. setTimeout (mk i) (spotDelay (spotlights s' ! i)) s'"
      and xs = "[0..<length (spotlights s)]" and s = s]
  by (simp add: setTimeout_def)

lemma spotlightTimers_fields [simp]:
  "scene (spotlightTimers mk s) = scene s"
  "models (spotlightTimers mk s) = models s"
  "now (spotlightTimers mk s) = now s"
  unfolding spotlightTimers_def
  by (rule fold_keeps, simp add: setTimeout_def)+

lemma timers_spotlightTimers: "set (timers s) \<subseteq> set (timers (spotlightTimers mk s))"
  unfolding spotlightTimers_def
  by (rule fold_invariant[where P = "\<lambda>u. set (timers s) \<subseteq> set (timers u)"])
     (auto simp: setTimeout_def)

lemma sameRun_refl: "scene s = Some ns \<Longrightarrow> sameRun s s"
  unfolding sameRun_def
  by (rule exI[of _ ns], rule exI[of _ ns], rule exI[of _ "fetched s"]) simp

lemma loadTestModels_sameRun:
  assumes "scene s = Some ns"
  shows "sameRun (loadTestModels h cfgs s) (loadTestModels h (filter (loads h) cfgs) s)"
proof -
  have "sameRun (s\<lparr>spotlights := []\<rparr>) (s\<lparr>spotlights := []\<rparr>)"
    by (rule sameRun_refl[of _ ns]) (simp add: assms)
  from loadEntries_sameRun[OF this, of h cfgs]
  obtain r r' where
    l: "loadEntries (testEntry h) cfgs (s\<lparr>spotlights := []\<rparr>) = (None, r)" and
    l': "loadEntries (testEntry h) (filter (loads h) cfgs) (s\<lparr>spotlights := []\<rparr>) = (None, r')"
    and rr: "sameRun r r'"
    by (metis prod.collapse)
  from rr obtain ns1 ns2 f where
    r: "r = r'\<lparr>scene := Some ns1, fetched := f\<rparr>" and sc: "scene r' = Some ns2" and
    fl: "filter (\<lambda>n. \<not> isErrorPlane n) ns1 = filter (\<lambda>n. \<not> isErrorPlane n) ns2"
    unfolding sameRun_def by blast
  show ?thesis
    unfolding sameRun_def
    apply (rule exI[of _ ns1], rule exI[of _ ns2], rule exI[of _ f])
    using sc fl
    by (simp add: loadTestModels_def l l' r spotlightTimers_frame startResetCycle_def)
qed

lemma models_loadModel:
  "models (snd (loadModel h p opts s)) =
     (case decode h p of
        Inl e \<Rightarrow> models s
      | Inr anims \<Rightarrow>
          AList.update p \<lparr>object = \<lparr>oid = alloc s, visible = optVisible opts\<rparr>,
                          options = opts, animations = anims\<rparr> (models s))"
  by (simp add: loadModel_def loadModelWith_def Let_def showModel_def setTimeout_def
      split: sum.splits)

lemma testEntry_keys:
  assumes "scene s = Some ns"
  shows "fst ` set (models (snd (testEntry h c s))) =
           fst ` set (models s) \<union> (if loads h c then {cfgPath c} else {})"
proof (cases "decode h (cfgPath c)")
  case (Inl e)
  then show ?thesis
    using assms by (simp add: testEntry_failed loads_def)
next
  case (Inr anims)
  then show ?thesis
    using assms by (auto simp: testEntry_loaded models_loadModel loads_def dom_update)
qed

lemma testEntry_scene:
  assumes "scene s = Some ns"
  shows "\<exists>new. scene (snd (testEntry h c s)) = Some (ns @ new) \<and>
           (\<not> loads h c \<longrightarrow> ErrorPlane (''Failed to load '' @ cfgPath c) \<in> set new) \<and>
           fst (testEntry h c s) = None"
proof (cases "decode h (cfgPath c)")
  case (Inl e)
  then show ?thesis
    using assms by (simp add: testEntry_failed loads_def)
next
  case (Inr anims)
  then show ?thesis
    using assms by (simp add: testEntry_loaded loads_def)
qed

lemma loadEntries_outcome:
  assumes "scene s = Some ns"
  shows "\<exists>ns1. scene (snd (loadEntries (testEntry h) cfgs s)) = Some ns1 \<and>
           set ns \<subseteq> set ns1 \<and>
           (\<forall>c \<in> set cfgs. cfgEnabled c \<and> \<not> loads h c \<longrightarrow>
              ErrorPlane (''Failed to load '' @ cfgPath c) \<in> set ns1) \<and>
           fst ` set (models (snd (loadEntries (testEntry h) cfgs s))) =
             fst ` set (models s) \<union> cfgPath ` {c \<in> set cfgs. cfgEnabled c \<and> loads h c}"
  using assms
proof (induction cfgs arbitrary: s ns)
  case Nil
  then show ?case by simp
next
  case (Cons c cfgs)
  show ?case
  proof (cases "cfgEnabled c")
    case False
    from Cons.IH[OF Cons.prems] False show ?thesis by auto
  next
    case True
    from testEntry_scene[OF Cons.prems, of h c] obtain new where
      sc: "scene (snd (testEntry h c s)) = Some (ns @ new)" and
      pl: "\<not> loads h c \<longrightarrow> ErrorPlane (''Failed to load '' @ cfgPath c) \<in> set new" and
      f: "fst (testEntry h c s) = None"
      by blast
    obtain s1 where t: "testEntry h c s = (None, s1)"
      using f by (cases "testEntry h c s") simp
    have sc1: "scene s1 = Some (ns @ new)" using sc t by simp
    have k1: "fst ` set (models s1) =
                fst ` set (models s) \<union> (if loads h c then {cfgPath c} else {})"
      using testEntry_keys[OF Cons.prems, of h c] t by simp
    from Cons.IH[OF sc1] obtain ns1 where
      a: "scene (snd (loadEntries (testEntry h) cfgs s1)) = Some ns1" and
      b: "set (ns @ new) \<subseteq> set ns1" and
      c: "\<forall>c \<in> set cfgs. cfgEnabled c \<and> \<not> loads h c \<longrightarrow>
              ErrorPlane (''Failed to load '' @ cfgPath c) \<in> set ns1" and
      d: "fst ` set (models (snd (loadEntries (testEntry h) cfgs s1))) =
             fst ` set (models s1) \<union> cfgPath ` {c \<in> set cfgs. cfgEnabled c \<and> loads h c}"
      by blast
    have e: "loadEntries (testEntry h) (c # cfgs) s = loadEntries (testEntry h) cfgs s1"
      using True t by simp
    show ?thesis
      unfolding e
      apply (rule exI[of _ ns1])
      using a b c d pl k1 True by auto
  qed
qed


lemma decode_z: "decode demoHost ''z.fbx'' = Inl CannotAccess"
  by (simp add: decode_def demoHost_def)


text \<open>
  In test mode (the global \<open>scene\<close> is set), for every configuration list and
  every host: \<open>loadTestModels\<close> on the list leaves the same state as
  \<open>loadTestModels\<close> on the list without the entries whose load fails, same registry,
  same timers with the same due times, same spotlights, except for the list of fetched
  paths and the error planes in the scene. For every enabled entry whose load fails the
  plane with its message is in the scene; every enabled entry whose load succeeds is in the
  registry; and, starting from an empty registry, a path whose load fails is never in the
  registry however far the clock advances, so it is never visible.
\<close>

lemma failed_load_is_skipped:
  assumes "scene s = Some ns"
  shows "\<exists>ns1 ns2 f.
     loadTestModels h cfgs s =
       (loadTestModels h (filter (loads h) cfgs) s)\<lparr>scene := Some ns1, fetched := f\<rparr> \<and>
     scene (loadTestModels h (filter (loads h) cfgs) s) = Some ns2 \<and>
     filter (\<lambda>n. \<not> isErrorPlane n) ns1 = filter (\<lambda>n. \<not> isErrorPlane n) ns2 \<and>
     (\<forall>c \<in> set cfgs. cfgEnabled c \<and> \<not> loads h c \<longrightarrow>
        ErrorPlane (''Failed to load '' @ cfgPath c) \<in> set ns1) \<and>
     (\<forall>c \<in> set cfgs. cfgEnabled c \<and> loads h c \<longrightarrow>
        cfgPath c \<in> fst ` set (models (loadTestModels h cfgs s))) \<and>
     (\<forall>c T. models s = [] \<and> \<not> loads h c \<longrightarrow>
        map_of (models (advance T (loadTestModels h cfgs s))) (cfgPath c) = None)"
proof -
  let ?R = "loadTestModels h cfgs s"
  let ?R' = "loadTestModels h (filter (loads h) cfgs) s"
  from loadTestModels_sameRun[OF assms, of h cfgs] obtain ns1 ns2 f where
    r: "?R = ?R'\<lparr>scene := Some ns1, fetched := f\<rparr>" and sc: "scene ?R' = Some ns2" and
    fl: "filter (\<lambda>n. \<not> isErrorPlane n) ns1 = filter (\<lambda>n. \<not> isErrorPlane n) ns2"
    unfolding sameRun_def by blast
  have s0: "scene (s\<lparr>spotlights := []\<rparr>) = Some ns" using assms by simp
  from loadEntries_outcome[OF s0, of h cfgs] obtain nsB where
    a: "scene (snd (loadEntries (testEntry h) cfgs (s\<lparr>spotlights := []\<rparr>))) = Some nsB" and
    c: "\<forall>c \<in> set cfgs. cfgEnabled c \<and> \<not> loads h c \<longrightarrow>
              ErrorPlane (''Failed to load '' @ cfgPath c) \<in> set nsB" and
    d: "fst ` set (models (snd (loadEntries (testEntry h) cfgs (s\<lparr>spotlights := []\<rparr>)))) =
          fst ` set (models s) \<union> cfgPath ` {c \<in> set cfgs. cfgEnabled c \<and> loads h c}"
    by auto
  have e: "fst (loadEntries (testEntry h) cfgs (s\<lparr>spotlights := []\<rparr>)) = None"
    using loadEntries_sameRun[OF sameRun_refl[OF s0], of h cfgs] by simp
  obtain r0 where l: "loadEntries (testEntry h) cfgs (s\<lparr>spotlights := []\<rparr>) = (None, r0)"
    using e by (cases "loadEntries (testEntry h) cfgs (s\<lparr>spotlights := []\<rparr>)") simp
  have scR: "scene ?R = Some nsB"
    using a l by (simp add: loadTestModels_def startResetCycle_def)
  have mR: "fst ` set (models ?R) =
          fst ` set (models s) \<union> cfgPath ` {c \<in> set cfgs. cfgEnabled c \<and> loads h c}"
    using d l by (simp add: loadTestModels_def startResetCycle_def)
  have "scene ?R = Some ns1" by (subst r) simp
  with scR have nsB: "nsB = ns1" by simp
  have planes: "\<forall>c \<in> set cfgs. cfgEnabled c \<and> \<not> loads h c \<longrightarrow>
        ErrorPlane (''Failed to load '' @ cfgPath c) \<in> set ns1"
    using c nsB by simp
  have loaded: "\<forall>c \<in> set cfgs. cfgEnabled c \<and> loads h c \<longrightarrow> cfgPath c \<in> fst ` set (models ?R)"
    unfolding mR by blast
  have never: "map_of (models (advance T ?R)) (cfgPath c) = None"
    if "models s = []" and "\<not> loads h c" for c T
  proof -
    have "cfgPath c \<notin> fst ` set (models ?R)"
    proof
      assume "cfgPath c \<in> fst ` set (models ?R)"
      with mR that(1) obtain c' where "loads h c'" and "cfgPath c' = cfgPath c" by auto
      with that(2) show False by (simp add: loads_def)
    qed
    moreover have "fst ` set (models (advance T ?R)) = fst ` set (models ?R)"
      by (metis advance_fields(5) set_map)
    ultimately show ?thesis by (simp add: map_of_eq_None_iff)
  qed
  have never': "\<forall>c T. models s = [] \<and> \<not> loads h c \<longrightarrow>
        map_of (models (advance T ?R)) (cfgPath c) = None"
    using never by blast
  show ?thesis
    apply (rule exI[of _ ns1], rule exI[of _ ns2], rule exI[of _ f])
    apply (intro conjI)
         apply (rule r)
        apply (rule sc)
       apply (rule fl)
      apply (rule planes)
     apply (rule loaded)
    apply (rule never')
    done
qed


lemma failed_load_is_skipped_sample:
  "scene testPage = Some [] \<and> models testPage = [] \<and>
   cfgEnabled (entry ''z.fbx'' 200) \<and> \<not> loads demoHost (entry ''z.fbx'' 200) \<and>
   cfgEnabled (entry ''a.glb'' 100) \<and> loads demoHost (entry ''a.glb'' 100) \<and>
   scene (loadTestModels demoHost [entry ''z.fbx'' 200, entry ''a.glb'' 100] testPage) =
     Some [ErrorPlane ''Failed to load z.fbx'', ModelNode 0, SpotlightNode 0] \<and>
   ''a.glb'' \<in> fst ` set (models (loadTestModels demoHost [entry ''z.fbx'' 200, entry ''a.glb'' 100]
                                   testPage)) \<and>
   map_of (models (advance 1000 (loadTestModels demoHost [entry ''z.fbx'' 200, entry ''a.glb'' 100]
                                   testPage))) ''z.fbx'' = None"
proof -
  have sc: "scene testPage = Some []" and m: "models testPage = []"
    by (simp_all add: testPage_def pageLoad_def)
  have z: "cfgEnabled (entry ''z.fbx'' 200)" "\<not> loads demoHost (entry ''z.fbx'' 200)"
    by (simp_all add: loads_def entry_def decode_z)
  have a: "cfgEnabled (entry ''a.glb'' 100)" "loads demoHost (entry ''a.glb'' 100)"
    by (simp_all add: loads_def entry_def decode_glb)
  have ev: "scene (loadTestModels demoHost [entry ''z.fbx'' 200, entry ''a.glb'' 100] testPage) =
     Some [ErrorPlane ''Failed to load z.fbx'', ModelNode 0, SpotlightNode 0]"
    by (simp add: loadTestModels_def testEntry_def loadModel_def loadModelWith_def decode_glb
        decode_z showModel_def setTimeout_def Let_def entry_def testPage_def pageLoad_def
        spotlightTimers_def startResetCycle_def update_conv' displayErrorMessage_def)
  from failed_load_is_skipped[OF sc, of demoHost "[entry ''z.fbx'' 200, entry ''a.glb'' 100]"]
  have "''a.glb'' \<in> fst ` set (models (loadTestModels demoHost
           [entry ''z.fbx'' 200, entry ''a.glb'' 100] testPage))"
    and "map_of (models (advance 1000 (loadTestModels demoHost
           [entry ''z.fbx'' 200, entry ''a.glb'' 100] testPage))) ''z.fbx'' = None"
    using z a m by (auto simp: entry_def)
  with sc m z a ev show ?thesis by simp
qed


subsection \<open>A load that fails in AR mode\<close>

lemma arEntry_scene: "scene s = None \<Longrightarrow> scene (snd (arEntry h c s)) = None"
  by (simp add: arEntry_def loadModelAR_def loadModelWith_def showModelAR_def setTimeout_def
      displayErrorMessage_def Let_def split: sum.splits)

lemma arEntry_error: "fst (arEntry h c s) = Some e \<Longrightarrow> e = TypeError"
proof (cases "decode h (cfgPath c)")
  case (Inl x)
  assume "fst (arEntry h c s) = Some e"
  with Inl show ?thesis
    by (cases "scene s")
       (simp_all add: arEntry_def loadModelAR_def loadModelWith_def displayErrorMessage_def Let_def)
next
  case (Inr an)
  assume "fst (arEntry h c s) = Some e"
  with Inr show ?thesis
    by (simp add: arEntry_def loadModelAR_def loadModelWith_def Let_def split: if_splits)
qed

lemma arEntry_failed:
  assumes "\<not> loads h c" and "scene s = None"
  shows "arEntry h c s = (Some TypeError, s\<lparr>fetched := fetched s @ [cfgPath c]\<rparr>)"
  using assms
  by (simp add: arEntry_def loadModelAR_def loadModelWith_def loads_def displayErrorMessage_def
      Let_def split: sum.splits)

lemma loadEntries_abort:
  assumes "scene s = None" and "cfgEnabled c" and "\<not> loads h c"
  shows "loadEntries (arEntry h) (pre @ c # post) s = loadEntries (arEntry h) (pre @ [c]) s \<and>
         fst (loadEntries (arEntry h) (pre @ [c]) s) = Some TypeError \<and>
         scene (snd (loadEntries (arEntry h) (pre @ [c]) s)) = None"
  using assms(1)
proof (induction pre arbitrary: s)
  case Nil
  then show ?case using assms(2,3) by (simp add: arEntry_failed)
next
  case (Cons a pre)
  show ?case
  proof (cases "cfgEnabled a")
    case False
    with Cons show ?thesis by simp
  next
    case True
    obtain r s1 where r: "arEntry h a s = (r, s1)" by (cases "arEntry h a s")
    have sc: "scene s1 = None" using arEntry_scene[OF Cons.prems, of h a] r by simp
    show ?thesis
    proof (cases r)
      case None
      with True r Cons.IH[OF sc] show ?thesis by simp
    next
      case (Some e)
      with r arEntry_error[of h a s e] have "e = TypeError" by simp
      with True r Some sc show ?thesis by simp
    qed
  qed
qed

text \<open>
  C7 fails in AR mode. \<open>displayErrorMessage\<close> adds its plane to the global
  \<open>scene\<close>, which only the test mode sets; \<open>initializeAR\<close> works on the scene
  of MindAR. With no global scene, the call in the \<open>catch\<close> of the loop throws, so
  at the first enabled entry whose load fails \<open>initializeAR\<close> ends with a
  \<open>TypeError\<close>: no plane is added, and the entries after it are not looked at, the
  outcome being that of the list cut after the failing entry.
\<close>

theorem failed_load_aborts_initializeAR:
  assumes "targetOk h" and "scene s = None" and "cfgEnabled c" and "\<not> loads h c"
  shows "fst (initializeAR h (pre @ c # post) s) = Some TypeError \<and>
         initializeAR h (pre @ c # post) s = initializeAR h (pre @ [c]) s \<and>
         scene (snd (initializeAR h (pre @ c # post) s)) = None"
proof -
  let ?s = "s\<lparr>mindarThree := True, anchorGroup := [], spotlights := [], timeoutIds := [],
              animationSequenceStarted := False\<rparr>"
  have "scene ?s = None" using assms(2) by simp
  from loadEntries_abort[OF this assms(3,4), of pre post] assms(1) show ?thesis
    by (simp add: initializeAR_def)
qed

theorem failed_load_aborts_initializeAR_witness:
  "targetOk demoHost \<and> scene pageLoad = None \<and> cfgEnabled (entry ''z.fbx'' 200) \<and>
   \<not> loads demoHost (entry ''z.fbx'' 200) \<and> loads demoHost (entry ''a.glb'' 100) \<and>
   initializeAR demoHost [entry ''z.fbx'' 200, entry ''a.glb'' 100] pageLoad =
     (Some TypeError, pageLoad\<lparr>mindarThree := True, fetched := [''z.fbx'']\<rparr>) \<and>
   initializeAR demoHost [entry ''a.glb'' 100] pageLoad = (None, oneLoaded)"
proof -
  have t: "targetOk demoHost" by (simp add: demoHost_def)
  have sc: "scene pageLoad = None" by (simp add: pageLoad_def)
  have z: "cfgEnabled (entry ''z.fbx'' 200)" "\<not> loads demoHost (entry ''z.fbx'' 200)"
    by (simp_all add: loads_def entry_def decode_z)
  have a: "loads demoHost (entry ''a.glb'' 100)"
    by (simp add: loads_def entry_def decode_glb)
  have one: "initializeAR demoHost [entry ''z.fbx'' 200] pageLoad =
               (Some TypeError, pageLoad\<lparr>mindarThree := True, fetched := [''z.fbx'']\<rparr>)"
    using t by (simp add: initializeAR_def arEntry_failed[OF z(2)] z(1) sc)
       (simp add: pageLoad_def entry_def)
  from failed_load_aborts_initializeAR[OF t sc z, of "[]" "[entry ''a.glb'' 100]"]
  show ?thesis
    using t sc z a one oneLoaded_init by simp
qed

section \<open>Restart\<close>

subsection \<open>Hiding every model\<close>

lemma models_hideModel:
  assumes "distinct (map fst (models s))"
  shows "models (hideModel p s) =
         map (\<lambda>(k, m). (k, if k = p then setVisible False m else m)) (models s)"
proof (cases "map_of (models s) p")
  case None
  then have "p \<notin> fst ` set (models s)" by (simp add: map_of_eq_None_iff)
  then have "map (\<lambda>(k, m). (k, if k = p then setVisible False m else m)) (models s) = models s"
    by (intro map_idI) force
  with None show ?thesis by (simp add: hideModel_def)
next
  case (Some m)
  have "AList.update p (setVisible False m) (models s) =
        map (\<lambda>(k, w). (k, if k = p then setVisible False m else w)) (models s)"
    using Some assms by (rule update_present)
  also have "\<dots> = map (\<lambda>(k, m). (k, if k = p then setVisible False m else m)) (models s)"
    using Some assms by (intro map_cong refl) (auto dest: eq_key_imp_eq_value simp: map_of_eq_Some_iff)
  finally show ?thesis using Some by (simp add: hideModel_def)
qed

lemma hideModel_fields [simp]:
  "timers (hideModel p s) = timers s"
  "nextTimer (hideModel p s) = nextTimer s"
  "now (hideModel p s) = now s"
  "mixers (hideModel p s) = mixers s"
  "shown (hideModel p s) = shown s"
  "map fst (models (hideModel p s)) = map fst (models s)"
  by (simp_all add: hideModel_def forActions_def keys_update_present split: option.splits)

lemma models_fold_hideModel:
  assumes "distinct (map fst (models s))"
  shows "models (fold hideModel ps s) =
         map (\<lambda>(k, m). (k, if k \<in> set ps then setVisible False m else m)) (models s)"
  using assms
proof (induction ps arbitrary: s)
  case Nil
  then show ?case by (simp add: case_prod_unfold)
next
  case (Cons p ps)
  have d: "distinct (map fst (models (hideModel p s)))" using Cons.prems by simp
  show ?case
    by (simp add: Cons.IH[OF d] models_hideModel[OF Cons.prems] case_prod_unfold)
qed

lemma hideAllModels_fields [simp]:
  "timers (hideAllModels s) = timers s"
  "nextTimer (hideAllModels s) = nextTimer s"
  "now (hideAllModels s) = now s"
  "shown (hideAllModels s) = shown s"
  unfolding hideAllModels_def by (rule fold_keeps, simp)+

lemma models_hideAllModels:
  assumes "distinct (map fst (models s))"
  shows "models (hideAllModels s) = map (\<lambda>e. (fst e, setVisible False (snd e))) (models s)"
  unfolding hideAllModels_def models_fold_hideModel[OF assms]
  by (rule map_cong) force+


subsection \<open>Rescheduling\<close>

lemma recreateMixer_fields [simp]:
  "models (recreateMixer p s) = models s"
  "timers (recreateMixer p s) = timers s"
  "nextTimer (recreateMixer p s) = nextTimer s"
  "now (recreateMixer p s) = now s"
  "shown (recreateMixer p s) = shown s"
  by (simp_all add: recreateMixer_def Let_def split: option.splits)

lemma fold_recreateMixer_fields [simp]:
  "models (fold recreateMixer ps s) = models s"
  "timers (fold recreateMixer ps s) = timers s"
  "nextTimer (fold recreateMixer ps s) = nextTimer s"
  "now (fold recreateMixer ps s) = now s"
  "shown (fold recreateMixer ps s) = shown s"
  by (rule fold_keeps, simp)+



lemma showAgain_models [simp]: "models (showAgain p s) = models s"
  by (simp add: showAgain_def showModel_def setTimeout_def split: option.splits)

lemma fold_showAgain_models [simp]: "models (fold showAgain ps s) = models s"
  by (rule fold_keeps) simp






subsection \<open>Reveals after a restart\<close>




lemma playing_startAction [simp]: "playingFromZero (startAction a)"
  by (simp add: playingFromZero_def startAction_def play_def reset_def)








section \<open>One run of the animation sequence\<close>

subsection \<open>What initializeAR leaves in the registry\<close>


lemma update_absent: "p \<notin> fst ` set al \<Longrightarrow> AList.update p v al = al @ [(p, v)]"
  by (induction al) auto

lemma arEntry_ok:
  assumes "scene s = None" and "\<not> testMode s" and "mindarThree s"
    and "arEntry h c s = (None, s1)"
  shows "scene s1 = None \<and> \<not> testMode s1 \<and> mindarThree s1 \<and>
         now s1 = now s \<and> shown s1 = shown s \<and>
         (\<exists>m. models s1 = AList.update (cfgPath c) m (models s) \<and>
              optDelay (options m) = cfgDelay c) \<and>
         (\<forall>sp \<in> set (spotlights s1). sp \<in> set (spotlights s) \<or> spotDelay sp = cfgDelay c)"
proof -
  note m = assms(2,3)
  obtain r s' where l:
    "loadModelAR h (cfgPath c) \<lparr>optVisible = False, optDelay = cfgDelay c\<rparr> s = (r, s')"
    by (cases "loadModelAR h (cfgPath c) \<lparr>optVisible = False, optDelay = cfgDelay c\<rparr> s")
  note f = loadModelAR_fields[OF m, of h "cfgPath c" "\<lparr>optVisible = False, optDelay = cfgDelay c\<rparr>",
      unfolded l, simplified]
  have r: "r = (case decode h (cfgPath c) of Inl e \<Rightarrow> Inl e
                | Inr anims \<Rightarrow> Inr \<lparr>object = \<lparr>oid = alloc s, visible = False\<rparr>,
                     options = \<lparr>optVisible = False, optDelay = cfgDelay c\<rparr>, animations = anims\<rparr>)"
    using l by (simp add: loadModelAR_def loadModelWith_def Let_def split: sum.splits) 
  show ?thesis
  proof (cases "decode h (cfgPath c)")
    case (Inl e)
    with assms(4) l r f assms(1) show ?thesis
      by (simp add: arEntry_def displayErrorMessage_def)
  next
    case (Inr anims)
    with assms(4) l r f assms(1) m show ?thesis
      by (auto simp: arEntry_def Let_def split: if_splits)
  qed
qed

lemma loadEntries_registry:
  assumes "scene s = None" and "\<not> testMode s" and "mindarThree s"
    and "loadEntries (arEntry h) cfgs s = (None, s')"
    and "distinct (map fst (models s) @ map cfgPath (filter cfgEnabled cfgs))"
  shows "map (\<lambda>e. (fst e, optDelay (options (snd e)))) (models s') =
           map (\<lambda>e. (fst e, optDelay (options (snd e)))) (models s) @
           map (\<lambda>c. (cfgPath c, cfgDelay c)) (filter cfgEnabled cfgs) \<and>
         now s' = now s \<and> shown s' = shown s \<and>
         (\<forall>sp \<in> set (spotlights s'). sp \<in> set (spotlights s) \<or>
            (\<exists>c \<in> set cfgs. cfgEnabled c \<and> spotDelay sp = cfgDelay c))"
  using assms
proof (induction cfgs arbitrary: s)
  case Nil
  then show ?case by simp
next
  case (Cons c cfgs)
  show ?case
  proof (cases "cfgEnabled c")
    case False
    with Cons.prems Cons.IH[of s] show ?thesis by simp
  next
    case True
    obtain e s1 where b: "arEntry h c s = (e, s1)" by (cases "arEntry h c s")
    with Cons.prems(4) True have e: "e = None"
      by (cases e) simp_all
    from arEntry_ok[OF Cons.prems(1-3) b[unfolded e]] obtain m where
      s1: "scene s1 = None" "\<not> testMode s1" "mindarThree s1" and
      n1: "now s1 = now s" "shown s1 = shown s" and
      m1: "models s1 = AList.update (cfgPath c) m (models s)" and
      d1: "optDelay (options m) = cfgDelay c" and
      p1: "\<forall>sp \<in> set (spotlights s1). sp \<in> set (spotlights s) \<or> spotDelay sp = cfgDelay c"
      by blast
    have fresh: "cfgPath c \<notin> fst ` set (models s)"
      using Cons.prems(5) True by auto
    have m1': "models s1 = models s @ [(cfgPath c, m)]"
      using m1 update_absent[OF fresh] by simp
    have l1: "loadEntries (arEntry h) cfgs s1 = (None, s')"
      using Cons.prems(4) True b e by simp
    have dd: "distinct (map fst (models s1) @ map cfgPath (filter cfgEnabled cfgs))"
      using Cons.prems(5) True by (simp add: m1')
    from Cons.IH[OF s1 l1 dd] show ?thesis
      using True p1 by (simp add: m1' d1 n1) blast
  qed
qed

lemma initializeAR_registry:
  assumes "initializeAR h cfgs pageLoad = (None, s0)"
    and "distinct (map cfgPath (filter cfgEnabled cfgs))"
  shows "map (\<lambda>e. (fst e, optDelay (options (snd e)))) (models s0) =
           map (\<lambda>c. (cfgPath c, cfgDelay c)) (filter cfgEnabled cfgs) \<and>
         now s0 = 0 \<and> shown s0 = [] \<and>
         (\<forall>sp \<in> set (spotlights s0). \<exists>c \<in> set cfgs. cfgEnabled c \<and> spotDelay sp = cfgDelay c)"
proof -
  let ?p = "pageLoad\<lparr>mindarThree := True, anchorGroup := [], spotlights := [],
              timeoutIds := [], animationSequenceStarted := False\<rparr>"
  have l: "loadEntries (arEntry h) cfgs ?p = (None, s0)"
    using assms(1) by (auto simp: initializeAR_def split: if_splits)
  have "scene ?p = None" "\<not> testMode ?p" "mindarThree ?p"
    by (simp_all add: pageLoad_def)
  from loadEntries_registry[OF this l] assms(2) show ?thesis
    by (simp add: pageLoad_def)
qed

subsection \<open>The timers a start sets\<close>

lemma plan_scheduleModel:
  assumes "map_of (models s) p = Some m"
  shows "plan (scheduleModel p s) = plan s @ [(now s + optDelay (options m), SeqModelCb p)]"
  using assms by (simp add: plan_def scheduleModel_def setTimeout_def)

lemma plan_fold_scheduleModel:
  assumes "distinct (map fst al)" and "set al \<subseteq> set (models s)"
    and "distinct (map fst (models s))"
  shows "plan (fold scheduleModel (map fst al) s) =
           plan s @ map (\<lambda>e. (now s + optDelay (options (snd e)), SeqModelCb (fst e))) al"
  using assms
proof (induction al arbitrary: s)
  case Nil
  then show ?case by simp
next
  case (Cons e al)
  obtain p m where e: "e = (p, m)" by (cases e)
  have mo: "map_of (models s) p = Some m"
    using Cons.prems(2,3) e by simp
  have "plan (fold scheduleModel (map fst al) (scheduleModel p s)) =
          plan (scheduleModel p s) @
          map (\<lambda>e. (now (scheduleModel p s) + optDelay (options (snd e)), SeqModelCb (fst e))) al"
    using Cons.prems by (intro Cons.IH) simp_all
  then show ?case
    by (simp add: e plan_scheduleModel[OF mo])
qed

lemma plan_fold_scheduleSpotlight:
  "plan (fold scheduleSpotlight is s) =
     plan s @ map (\<lambda>i. (now s + spotDelay (spotlights s ! i), SeqSpotlightCb i)) is"
  by (induction "is" arbitrary: s)
     (simp_all add: plan_def scheduleSpotlight_def setTimeout_def)


lemma models_fold_hideAndReset:
  assumes "distinct (map fst (models s))"
  shows "models (fold hideAndReset ps s) =
         map (\<lambda>e. (fst e, if fst e \<in> set ps then setVisible False (snd e) else snd e)) (models s)"
  using assms
proof (induction ps arbitrary: s)
  case Nil
  then show ?case by simp
next
  case (Cons p ps)
  have d: "distinct (map fst (models (hideAndReset p s)))" using Cons.prems by simp
  show ?case
    by (simp add: Cons.IH[OF d] models_hideAndReset[OF Cons.prems] case_prod_unfold)
qed

lemma models_hidden_all:
  assumes "distinct (map fst (models s))"
  shows "models (fold hideAndReset (map fst (models s)) s) =
           map (\<lambda>e. (fst e, setVisible False (snd e))) (models s)"
  unfolding models_fold_hideAndReset[OF assms]
  by (rule map_cong) force+

lemma plan_start:
  assumes "\<not> animationSequenceStarted s" and "timers s = []"
    and "distinct (map fst (models s))"
  shows "plan (startAnimationSequence s) =
           map (\<lambda>e. (now s + optDelay (options (snd e)), SeqModelCb (fst e))) (models s) @
           map (\<lambda>i. (now s + spotDelay (spotlights s ! i), SeqSpotlightCb i))
             [0..<length (spotlights s)]"
    and "models (startAnimationSequence s) =
           map (\<lambda>e. (fst e, setVisible False (snd e))) (models s)"
    and "now (startAnimationSequence s) = now s"
    and "shown (startAnimationSequence s) = shown s"
proof -
  define c where "c = clearTimeouts (s\<lparr>animationSequenceStarted := True\<rparr>)"
  define h where "h = hideSpotlights (fold hideAndReset (map fst (models c)) c)"
  define m where "m = fold scheduleModel (map fst (models h)) h"
  have dc: "distinct (map fst (models c))" using assms(3) by (simp add: c_def)
  have mh: "models h = map (\<lambda>e. (fst e, setVisible False (snd e))) (models s)"
    using models_hidden_all[OF dc] by (simp add: h_def) (simp add: c_def)
  have ph: "plan h = []" using assms(2) by (simp add: plan_def h_def c_def)
  have nh: "now h = now s" "shown h = shown s" by (simp_all add: h_def c_def)
  have sh: "spotlights h = map (\<lambda>sp. sp\<lparr>spotVisible := False\<rparr>) (spotlights s)"
    by (simp add: h_def hideSpotlights_def) (simp add: c_def)
  have dh: "distinct (map fst (models h))" using assms(3) by (simp add: mh comp_def)
  have eq: "startAnimationSequence s = fold scheduleSpotlight [0..<length (spotlights m)] m"
    using assms(1) by (simp add: startAnimationSequence_def Let_def m_def h_def c_def)
  have pm: "plan m = map (\<lambda>e. (now s + optDelay (options (snd e)), SeqModelCb (fst e))) (models s)"
    unfolding m_def plan_fold_scheduleModel[OF dh subset_refl dh]
    by (simp add: ph nh mh comp_def setVisible_def)
  have fm: "now m = now s" "spotlights m = spotlights h" "models m = models h" "shown m = shown s"
    by (simp_all add: m_def nh)
  have sp: "map (\<lambda>i. (now s + spotDelay (map (\<lambda>sp. sp\<lparr>spotVisible := False\<rparr>) (spotlights s) ! i),
                       SeqSpotlightCb i)) [0..<length (spotlights s)] =
            map (\<lambda>i. (now s + spotDelay (spotlights s ! i), SeqSpotlightCb i))
              [0..<length (spotlights s)]"
    by (rule map_cong) simp_all
  show "plan (startAnimationSequence s) =
           map (\<lambda>e. (now s + optDelay (options (snd e)), SeqModelCb (fst e))) (models s) @
           map (\<lambda>i. (now s + spotDelay (spotlights s ! i), SeqSpotlightCb i))
             [0..<length (spotlights s)]"
    unfolding eq plan_fold_scheduleSpotlight pm fm sh
    by (simp add: sp)
  show "models (startAnimationSequence s) =
           map (\<lambda>e. (fst e, setVisible False (snd e))) (models s)"
    unfolding eq by (simp add: fm mh)
  show "now (startAnimationSequence s) = now s"
    unfolding eq by (simp add: fm)
  show "shown (startAnimationSequence s) = shown s"
    unfolding eq by (simp add: fm)
qed


subsection \<open>Firing a plan\<close>

lemma fold_fire_plan: "fold fire ts s = fold fireAt (map (\<lambda>t. (due t, cb t)) ts) s"
  by (induction ts arbitrary: s) (simp_all add: fire_def fireAt_def)

lemma map_insort_key:
  assumes "\<And>x. f' (h x) = f x"
  shows "map h (insort_key f x ys) = insort_key f' (h x) (map h ys)"
  by (induction ys) (simp_all add: assms)

lemma map_sort_key:
  assumes "\<And>x. f' (h x) = f x"
  shows "map h (sort_key f xs) = sort_key f' (map h xs)"
  by (induction xs) (simp_all add: map_insort_key[where f' = f' and f = f and h = h, OF assms])

lemma advance_all:
  assumes "\<forall>t \<in> set (timers s). due t \<le> T"
  shows "advance T s =
           (fold fireAt (sort_key fst (plan s)) (s\<lparr>timers := []\<rparr>))\<lparr>now := max (now s) T\<rparr>"
proof -
  have f: "filter (\<lambda>t. due t \<le> T) (timers s) = timers s"
    using assms by simp
  have g: "filter (\<lambda>t. \<not> due t \<le> T) (timers s) = []"
    using assms by (simp add: filter_empty_conv)
  have "map (\<lambda>t. (due t, cb t)) (sort_key due (timers s)) = sort_key fst (plan s)"
    unfolding plan_def by (rule map_sort_key) simp
  then show ?thesis
    by (simp add: advance_def f g fold_fire_plan)
qed

lemma fireAt_fields [simp]:
  "animationSequenceStarted (fireAt dc s) = animationSequenceStarted s"
  "now (fireAt dc s) = max (now s) (fst dc)"
  "map fst (models (fireAt dc s)) = map fst (models s)"
  "timers (fireAt dc s) = timers s"
  by (simp_all add: fireAt_def)

lemma shown_fireAt:
  assumes "\<forall>p. snd dc = SeqModelCb p \<longrightarrow> animationSequenceStarted s"
    and "\<forall>p. snd dc = ShowModelCb p \<longrightarrow> p \<in> fst ` set (models s)"
    and "now s \<le> fst dc"
  shows "shown (fireAt dc s) = shown s @ (case revealOf dc of None \<Rightarrow> [] | Some r \<Rightarrow> [r])"
proof (cases dc)
  case (Pair d c)
  show ?thesis
  proof (cases c)
    case (SeqModelCb p)
    with assms(1,3) Pair show ?thesis
      by (simp add: fireAt_def runCallback_def seqModelCb_def max_def)
  next
    case (SeqSpotlightCb i)
    with Pair show ?thesis
      by (simp add: fireAt_def runCallback_def)
  next
    case (ShowModelCb p)
    with assms(2) Pair have "p \<in> fst ` set (models s)" by simp
    then obtain m where "map_of (models s) p = Some m"
      by (metis domD dom_map_of_conv_image_fst)
    with assms(3) Pair ShowModelCb show ?thesis
      by (simp add: fireAt_def runCallback_def showModelCb_def max_def)
  next
    case (SpotlightCb i)
    with Pair show ?thesis
      by (simp add: fireAt_def runCallback_def)
  qed
qed

lemma shown_fold_fireAt:
  assumes "\<forall>dc \<in> set pl. \<forall>p. snd dc = SeqModelCb p \<longrightarrow> animationSequenceStarted s"
    and "\<forall>dc \<in> set pl. \<forall>p. snd dc = ShowModelCb p \<longrightarrow> p \<in> fst ` set (models s)"
    and "sorted (map fst pl)" and "\<forall>dc \<in> set pl. now s \<le> fst dc"
  shows "shown (fold fireAt pl s) = shown s @ List.map_filter revealOf pl"
  using assms
proof (induction pl arbitrary: s)
  case Nil
  then show ?case by (simp add: List.map_filter_simps)
next
  case (Cons dc pl)
  have st: "\<forall>x \<in> set pl. \<forall>p. snd x = SeqModelCb p \<longrightarrow> animationSequenceStarted (fireAt dc s)"
    using Cons.prems(1) by simp
  have k: "\<forall>x \<in> set pl. \<forall>p. snd x = ShowModelCb p \<longrightarrow> p \<in> fst ` set (models (fireAt dc s))"
  proof -
    have "fst ` set (models (fireAt dc s)) = fst ` set (models s)"
      by (metis fireAt_fields(3) set_map)
    with Cons.prems(2) show ?thesis by simp
  qed
  have n: "\<forall>x \<in> set pl. now (fireAt dc s) \<le> fst x"
    using Cons.prems(3,4) by auto
  have "shown (fold fireAt pl (fireAt dc s)) =
          shown (fireAt dc s) @ List.map_filter revealOf pl"
    using Cons.prems(3) by (intro Cons.IH[OF st k _ n]) simp_all
  moreover have "shown (fireAt dc s) =
                   shown s @ (case revealOf dc of None \<Rightarrow> [] | Some r \<Rightarrow> [r])"
    using Cons.prems by (intro shown_fireAt) simp_all
  ultimately show ?case
    by (simp add: List.map_filter_simps split: option.splits)
qed

lemma models_seqModelCb:
  assumes "distinct (map fst (models s))" and "animationSequenceStarted s"
  shows "models (seqModelCb p s) =
         map (\<lambda>e. (fst e, if fst e = p then setVisible True (snd e) else snd e)) (models s)"
proof (cases "map_of (models s) p")
  case None
  then have "p \<notin> fst ` set (models s)" by (simp add: map_of_eq_None_iff)
  then have "map (\<lambda>e. (fst e, if fst e = p then setVisible True (snd e) else snd e)) (models s) =
             models s"
    by (intro map_idI) force
  with None show ?thesis by (simp add: seqModelCb_def)
next
  case (Some m)
  have "AList.update p (setVisible True m) (models s) =
        map (\<lambda>(k, w). (k, if k = p then setVisible True m else w)) (models s)"
    using Some assms(1) by (rule update_present)
  also have "\<dots> = map (\<lambda>e. (fst e, if fst e = p then setVisible True (snd e) else snd e)) (models s)"
    using Some assms(1)
    by (intro map_cong refl) (auto dest: eq_key_imp_eq_value simp: map_of_eq_Some_iff)
  finally show ?thesis using Some assms(2) by (simp add: seqModelCb_def)
qed

lemma models_fireAt:
  assumes "distinct (map fst (models s))" and "animationSequenceStarted s"
    and "ofSequence (snd dc)"
  shows "models (fireAt dc s) =
         map (\<lambda>e. (fst e, if snd dc = SeqModelCb (fst e) then setVisible True (snd e) else snd e))
           (models s)"
proof (cases "snd dc")
  case (SeqModelCb p)
  have "models (fireAt dc s) =
          map (\<lambda>e. (fst e, if fst e = p then setVisible True (snd e) else snd e)) (models s)"
    using assms(1,2) SeqModelCb
    by (simp add: fireAt_def runCallback_def models_seqModelCb)
  also have "\<dots> = map (\<lambda>e. (fst e, if snd dc = SeqModelCb (fst e) then setVisible True (snd e)
                                      else snd e)) (models s)"
    using SeqModelCb by (intro map_cong refl) auto
  finally show ?thesis .
next
  case (SeqSpotlightCb i)
  then show ?thesis
    by (simp add: fireAt_def runCallback_def)
next
  case (ShowModelCb p)
  with assms(3) show ?thesis by simp
next
  case (SpotlightCb i)
  with assms(3) show ?thesis by simp
qed

lemma models_fold_fireAt:
  assumes "distinct (map fst (models s))" and "animationSequenceStarted s"
    and "\<forall>dc \<in> set pl. ofSequence (snd dc)"
  shows "models (fold fireAt pl s) =
         map (\<lambda>e. (fst e, if SeqModelCb (fst e) \<in> snd ` set pl then setVisible True (snd e)
                         else snd e)) (models s)"
  using assms
proof (induction pl arbitrary: s)
  case Nil
  then show ?case by simp
next
  case (Cons dc pl)
  have d: "distinct (map fst (models (fireAt dc s)))" using Cons.prems(1) by simp
  have st: "animationSequenceStarted (fireAt dc s)" using Cons.prems(2) by simp
  have "models (fold fireAt pl (fireAt dc s)) =
          map (\<lambda>e. (fst e, if SeqModelCb (fst e) \<in> snd ` set pl then setVisible True (snd e)
                          else snd e)) (models (fireAt dc s))"
    using Cons.prems(3) by (intro Cons.IH[OF d st]) simp
  then show ?case
    using Cons.prems
    by (simp add: models_fireAt comp_def)
qed

lemma playing_seqStartAction [simp]: "playingFromZero (seqStartAction a)"
  by (simp add: playingFromZero_def seqStartAction_def play_def reset_def)

lemma clips_shown:
  assumes "visibleClipsAtZero s" and "map_of (models s) p = Some m"
    and "\<And>a. playingFromZero (f a)"
  shows "visibleClipsAtZero
           (forActions f p (s\<lparr>models := AList.update p (setVisible True m) (models s),
                                 shown := sh\<rparr>))"
  unfolding visibleClipsAtZero_def
proof (intro ballI impI allI)
  let ?s' = "forActions f p (s\<lparr>models := AList.update p (setVisible True m) (models s),
                                  shown := sh\<rparr>)"
  fix e acts na
  assume e: "e \<in> set (models ?s')" and v: "visible (object (snd e))"
    and a: "map_of (actions ?s') (fst e) = Some acts" and na: "na \<in> set acts"
  have as: "actions ?s' =
              (case map_of (actions s) p of
                 None \<Rightarrow> actions s
               | Some acts \<Rightarrow> AList.update p (map (apsnd f) acts) (actions s))"
    by (simp add: forActions_def split: option.splits)
  show "playingFromZero (snd na)"
  proof (cases "fst e = p")
    case True
    with a as obtain acts0 where "acts = map (apsnd f) acts0"
      by (auto simp: update_conv' split: option.splits)
    with na assms(3) show ?thesis by auto
  next
    case False
    with e have e': "e \<in> set (models s)"
      by (auto dest: in_updateD)
    from False a as have "map_of (actions s) (fst e) = Some acts"
      by (auto simp: update_conv' split: option.splits)
    with assms(1) e' v na show ?thesis
      unfolding visibleClipsAtZero_def by blast
  qed
qed

lemma clips_orphan:
  assumes "visibleClipsAtZero s" and "map_of (models s) p = None"
  shows "visibleClipsAtZero (forActions f p (s\<lparr>shown := sh\<rparr>))"
  unfolding visibleClipsAtZero_def
proof (intro ballI impI allI)
  fix e acts na
  assume e: "e \<in> set (models (forActions f p (s\<lparr>shown := sh\<rparr>)))"
    and v: "visible (object (snd e))"
    and a: "map_of (actions (forActions f p (s\<lparr>shown := sh\<rparr>))) (fst e) = Some acts"
    and na: "na \<in> set acts"
  from e have e': "e \<in> set (models s)" by simp
  with assms(2) have "fst e \<noteq> p"
    by (metis domIff dom_map_of_conv_image_fst image_eqI)
  with a have "map_of (actions s) (fst e) = Some acts"
    by (auto simp: forActions_def update_conv' split: option.splits)
  with assms(1) e' v na show "playingFromZero (snd na)"
    unfolding visibleClipsAtZero_def by blast
qed

lemma clips_now [simp]: "visibleClipsAtZero (s\<lparr>now := n\<rparr>) = visibleClipsAtZero s"
  by (simp add: visibleClipsAtZero_def)

lemma clips_runCallback:
  assumes "visibleClipsAtZero s"
  shows "visibleClipsAtZero (runCallback c s)"
proof (cases c)
  case (ShowModelCb p)
  show ?thesis
  proof (cases "map_of (models s) p")
    case None
    with assms ShowModelCb show ?thesis
      by (simp add: runCallback_def showModelCb_def visibleClipsAtZero_def)
  next
    case (Some m)
    from clips_shown[OF assms Some, of startAction] Some ShowModelCb show ?thesis
      by (simp add: runCallback_def showModelCb_def)
  qed
next
  case (SpotlightCb i)
  with assms show ?thesis
    by (simp add: runCallback_def visibleClipsAtZero_def)
next
  case (SeqModelCb p)
  show ?thesis
  proof (cases "animationSequenceStarted s")
    case False
    with assms SeqModelCb show ?thesis
      by (simp add: runCallback_def seqModelCb_def)
  next
    case True
    show ?thesis
    proof (cases "map_of (models s) p")
      case None
      from clips_orphan[OF assms None, of seqStartAction] True None SeqModelCb show ?thesis
        by (simp add: runCallback_def seqModelCb_def)
    next
      case (Some m)
      from clips_shown[OF assms Some, of seqStartAction] True Some SeqModelCb show ?thesis
        by (simp add: runCallback_def seqModelCb_def)
    qed
  qed
next
  case (SeqSpotlightCb i)
  with assms show ?thesis
    by (simp add: runCallback_def seqSpotlightCb_def lightUp_def visibleClipsAtZero_def)
qed

lemma clips_fold_fireAt:
  "visibleClipsAtZero s \<Longrightarrow> visibleClipsAtZero (fold fireAt pl s)"
  by (rule fold_invariant[where P = visibleClipsAtZero])
     (simp_all add: fireAt_def clips_runCallback)

lemma loadingAR_initializeAR:
  assumes "initializeAR h cfgs pageLoad = (None, s0)"
  shows "loadingAR s0"
proof -
  have t: "targetOk h"
    using assms by (auto simp: initializeAR_def split: if_splits)
  have "loadingAR (pageLoad\<lparr>mindarThree := True, anchorGroup := [], spotlights := [],
           timeoutIds := [], animationSequenceStarted := False\<rparr>)"
    by (simp add: loadingAR_def pageLoad_def allHidden_def)
  from loadEntries_loading[OF this, of h cfgs] assms t
  show "loadingAR s0" by (simp add: initializeAR_def)
qed

lemma map_sort_key_on:
  assumes "\<forall>x \<in> set xs. f' (h x) = f x"
  shows "map h (sort_key f xs) = sort_key f' (map h xs)"
  using assms
proof (induction xs)
  case Nil
  then show ?case by simp
next
  case (Cons x xs)
  have ins: "\<And>ys. \<forall>y \<in> set ys. f' (h y) = f y \<Longrightarrow>
              map h (insort_key f x ys) = insort_key f' (h x) (map h ys)"
  proof -
    fix ys
    show "\<forall>y \<in> set ys. f' (h y) = f y \<Longrightarrow>
            map h (insort_key f x ys) = insort_key f' (h x) (map h ys)"
      using Cons.prems by (induction ys) simp_all
  qed
  have "\<forall>y \<in> set (sort_key f xs). f' (h y) = f y"
    using Cons.prems by simp
  from ins[OF this] Cons show ?case by simp
qed

lemma reveals_sorted:
  "List.map_filter revealOf (sort_key fst pl) = sort_key fst (List.map_filter revealOf pl)"
proof -
  have "List.map_filter revealOf (sort_key fst pl) =
          map (the \<circ> revealOf) (sort_key fst (filter (\<lambda>x. revealOf x \<noteq> None) pl))"
    by (simp add: List.map_filter_def filter_sort)
  also have "\<dots> = sort_key fst (map (the \<circ> revealOf) (filter (\<lambda>x. revealOf x \<noteq> None) pl))"
  proof (rule map_sort_key_on, rule ballI)
    fix x assume "x \<in> set (filter (\<lambda>x. revealOf x \<noteq> None) pl)"
    then have "revealOf x \<noteq> None" by simp
    then show "fst ((the \<circ> revealOf) x) = fst x"
      by (cases x rule: revealOf.cases) simp_all
  qed
  finally show ?thesis by (simp add: List.map_filter_def)
qed

lemma reveals_models:
  "List.map_filter revealOf (map (\<lambda>c. (f c, SeqModelCb (g c))) xs) = map (\<lambda>c. (f c, g c)) xs"
  by (induction xs) (simp_all add: List.map_filter_simps)

lemma reveals_spotlights:
  "List.map_filter revealOf (map (\<lambda>i. (f i, SeqSpotlightCb i)) is) = []"
  by (induction "is") (simp_all add: List.map_filter_simps)

lemma reveals_append:
  "List.map_filter revealOf (xs @ ys) = List.map_filter revealOf xs @ List.map_filter revealOf ys"
  by (simp add: List.map_filter_def)

lemma sequence_run:
  assumes init: "initializeAR h cfgs pageLoad = (None, s0)"
    and dist: "distinct (map cfgPath (filter cfgEnabled cfgs))"
    and late: "\<forall>c \<in> set cfgs. cfgEnabled c \<longrightarrow> T0 + cfgDelay c \<le> T"
  shows "List.map_filter revealOf (plan (startAnimationSequence (advance T0 s0))) =
           map (\<lambda>c. (T0 + cfgDelay c, cfgPath c)) (filter cfgEnabled cfgs)"
    and "shown (advance T (startAnimationSequence (advance T0 s0))) =
           sort_key fst (map (\<lambda>c. (T0 + cfgDelay c, cfgPath c)) (filter cfgEnabled cfgs))"
    and "visibilities (advance T (startAnimationSequence (advance T0 s0))) =
           map (\<lambda>c. (cfgPath c, True)) (filter cfgEnabled cfgs)"
    and "visibleClipsAtZero (advance T (startAnimationSequence (advance T0 s0)))"
proof -
  define ents where "ents = filter cfgEnabled cfgs"
  define a where "a = advance T0 s0"
  define s1 where "s1 = startAnimationSequence a"
  from loadingAR_initializeAR[OF init] have
    t0: "timers s0 = []" and ns0: "\<not> animationSequenceStarted s0" and
    d0: "distinct (map fst (models s0))"
    by (simp_all add: loadingAR_def)
  from initializeAR_registry[OF init dist] have
    reg: "map (\<lambda>e. (fst e, optDelay (options (snd e)))) (models s0) =
            map (\<lambda>c. (cfgPath c, cfgDelay c)) ents" and
    n0: "now s0 = 0" and sh0: "shown s0 = []" and
    sp0: "\<forall>sp \<in> set (spotlights s0). \<exists>c \<in> set cfgs. cfgEnabled c \<and> spotDelay sp = cfgDelay c"
    by (simp_all add: ents_def)
  have a_eq: "a = s0\<lparr>now := T0\<rparr>"
    unfolding a_def using advance_idle[OF t0, of T0] n0 by simp
  have fa: "\<not> animationSequenceStarted a" "timers a = []" "distinct (map fst (models a))"
    "now a = T0" "models a = models s0" "spotlights a = spotlights s0" "shown a = []"
    using ns0 t0 d0 sh0 by (simp_all add: a_eq)
  note ps = plan_start[OF fa(1,2,3), folded s1_def, unfolded fa]
  have mp: "map (\<lambda>e. (T0 + optDelay (options (snd e)), SeqModelCb (fst e))) (models s0) =
              map (\<lambda>c. (T0 + cfgDelay c, SeqModelCb (cfgPath c))) ents"
  proof -
    have "map (\<lambda>e. (T0 + optDelay (options (snd e)), SeqModelCb (fst e))) (models s0) =
            map (\<lambda>pd. (T0 + snd pd, SeqModelCb (fst pd)))
              (map (\<lambda>e. (fst e, optDelay (options (snd e)))) (models s0))"
      by (simp add: comp_def)
    also have "\<dots> = map (\<lambda>c. (T0 + cfgDelay c, SeqModelCb (cfgPath c))) ents"
      unfolding reg by (simp add: comp_def)
    finally show ?thesis .
  qed
  have keys: "map fst (models s0) = map cfgPath ents"
  proof -
    have "map fst (models s0) = map fst (map (\<lambda>e. (fst e, optDelay (options (snd e)))) (models s0))"
      by (simp add: comp_def)
    also have "\<dots> = map cfgPath ents" unfolding reg by (simp add: comp_def)
    finally show ?thesis .
  qed
  have pl: "plan s1 =
              map (\<lambda>c. (T0 + cfgDelay c, SeqModelCb (cfgPath c))) ents @
              map (\<lambda>i. (T0 + spotDelay (spotlights s0 ! i), SeqSpotlightCb i))
                [0..<length (spotlights s0)]"
    using ps(1) by (simp add: mp)
  show A: "List.map_filter revealOf (plan (startAnimationSequence (advance T0 s0))) =
           map (\<lambda>c. (T0 + cfgDelay c, cfgPath c)) (filter cfgEnabled cfgs)"
    unfolding a_def[symmetric] s1_def[symmetric] pl reveals_append reveals_models
      reveals_spotlights
    by (simp add: ents_def)
  have due: "\<forall>dc \<in> set (plan s1). T0 \<le> fst dc \<and> fst dc \<le> T \<and> ofSequence (snd dc)"
  proof
    fix dc assume "dc \<in> set (plan s1)"
    then consider c where "c \<in> set ents" "dc = (T0 + cfgDelay c, SeqModelCb (cfgPath c))"
      | i where "i < length (spotlights s0)"
          "dc = (T0 + spotDelay (spotlights s0 ! i), SeqSpotlightCb i)"
      unfolding pl by auto
    then show "T0 \<le> fst dc \<and> fst dc \<le> T \<and> ofSequence (snd dc)"
    proof cases
      case 1
      with late show ?thesis by (simp add: ents_def)
    next
      case 2
      then have "spotlights s0 ! i \<in> set (spotlights s0)" by simp
      with sp0 obtain c where "c \<in> set cfgs" "cfgEnabled c"
        "spotDelay (spotlights s0 ! i) = cfgDelay c" by blast
      with late 2 show ?thesis by simp
    qed
  qed
  have tm: "\<forall>t \<in> set (timers s1). due t \<le> T"
  proof
    fix t assume "t \<in> set (timers s1)"
    then have "(due t, cb t) \<in> set (plan s1)" by (auto simp: plan_def)
    with due show "due t \<le> T" by fastforce
  qed
  define b where "b = s1\<lparr>timers := []\<rparr>"
  have fb: "animationSequenceStarted b" "now b = T0" "shown b = []"
    "models b = map (\<lambda>e. (fst e, setVisible False (snd e))) (models s0)"
    using ps(2,3,4) by (simp_all add: b_def s1_def)
  have adv: "advance T s1 = (fold fireAt (sort_key fst (plan s1)) b)\<lparr>now := max T0 T\<rparr>"
    using advance_all[OF tm] ps(3) by (simp add: b_def)
  have kb: "fst ` set (models b) = cfgPath ` set ents"
  proof -
    have "map fst (models b) = map cfgPath ents" by (simp add: fb(4) comp_def keys)
    then show ?thesis by (metis set_map)
  qed
  have "shown (fold fireAt (sort_key fst (plan s1)) b) =
          shown b @ List.map_filter revealOf (sort_key fst (plan s1))"
  proof (rule shown_fold_fireAt)
    show "\<forall>dc \<in> set (sort_key fst (plan s1)).
            \<forall>p. snd dc = SeqModelCb p \<longrightarrow> animationSequenceStarted b"
      using fb(1) by simp
    show "\<forall>dc \<in> set (sort_key fst (plan s1)).
            \<forall>p. snd dc = ShowModelCb p \<longrightarrow> p \<in> fst ` set (models b)"
      unfolding pl by auto
    show "sorted (map fst (sort_key fst (plan s1)))" by simp
    show "\<forall>dc \<in> set (sort_key fst (plan s1)). now b \<le> fst dc" using due by (simp add: fb(2))
  qed
  then show "shown (advance T (startAnimationSequence (advance T0 s0))) =
           sort_key fst (map (\<lambda>c. (T0 + cfgDelay c, cfgPath c)) (filter cfgEnabled cfgs))"
    unfolding a_def[symmetric] s1_def[symmetric] adv reveals_sorted
    using A by (simp add: fb(3) a_def s1_def)
  have db: "distinct (map fst (models b))" using d0 by (simp add: fb(4) comp_def)
  have mb: "models (fold fireAt (sort_key fst (plan s1)) b) =
         map (\<lambda>e. (fst e, if SeqModelCb (fst e) \<in> snd ` set (sort_key fst (plan s1))
                         then setVisible True (snd e) else snd e)) (models b)"
    by (rule models_fold_fireAt[OF db fb(1)]) (use due in simp)
  have pt: "\<forall>e \<in> set (models b). SeqModelCb (fst e) \<in> snd ` set (sort_key fst (plan s1))"
  proof
    fix e assume "e \<in> set (models b)"
    then have "fst e \<in> cfgPath ` set ents" using kb by force
    then show "SeqModelCb (fst e) \<in> snd ` set (sort_key fst (plan s1))"
      unfolding pl by force
  qed
  have allv: "map (\<lambda>e. (fst e, visible (object (snd e))))
                (models (fold fireAt (sort_key fst (plan s1)) b)) =
              map (\<lambda>e. (fst e, True)) (models b)"
    unfolding mb map_map comp_def
    by (rule map_cong[OF refl]) (use pt in \<open>simp add: setVisible_def\<close>)
  have kv: "map (\<lambda>e. (fst e, True)) (models b) = map (\<lambda>c. (cfgPath c, True)) ents"
  proof -
    have "map (\<lambda>e. (fst e, True)) (models b) = map (\<lambda>p. (p, True)) (map fst (models b))"
      by (simp add: comp_def)
    also have "map fst (models b) = map cfgPath ents"
      by (simp add: fb(4) comp_def keys)
    finally show ?thesis by (simp add: comp_def)
  qed
  show "visibilities (advance T (startAnimationSequence (advance T0 s0))) =
           map (\<lambda>c. (cfgPath c, True)) (filter cfgEnabled cfgs)"
    unfolding a_def[symmetric] s1_def[symmetric] adv visibilities_def
    using allv kv by (simp add: ents_def)
  have "visibleClipsAtZero b"
    by (simp add: visibleClipsAtZero_def fb(4) setVisible_def)
  then have "visibleClipsAtZero (fold fireAt (sort_key fst (plan s1)) b)"
    by (rule clips_fold_fireAt)
  then show "visibleClipsAtZero (advance T (startAnimationSequence (advance T0 s0)))"
    unfolding a_def[symmetric] s1_def[symmetric] adv by simp
qed

lemma decode_b: "decode demoHost ''b.glb'' = Inr []"
  by (simp add: decode_def demoHost_def endsWith_def toLowerCase_def toLowerChar_def)

lemma tieLoaded_init: "initializeAR demoHost tieList pageLoad = (None, tieLoaded)"
  by (simp add: initializeAR_def arEntry_def loadModelAR_def loadModelWith_def decode_glb decode_b
      showModelAR_def Let_def entry_def pageLoad_def tieList_def tieLoaded_def)
     (simp add: demoHost_def)



lemma tripLoaded_init:
  "initializeAR demoHost [entry ''a.glb'' 1000, entry ''b.glb'' 1000, entry ''a.glb'' 1000]
     pageLoad = (None, tripLoaded)"
  by (simp add: initializeAR_def arEntry_def loadModelAR_def loadModelWith_def decode_glb decode_b
      showModelAR_def Let_def entry_def pageLoad_def tripLoaded_def)
     (simp add: demoHost_def)

section \<open>Every enabled entry is revealed once\<close>




section \<open>Entries with equal delays\<close>

subsection \<open>The reset cycle of the test mode\<close>

lemma tieTest_eq: "loadTestModels demoHost tieList testPage = tieTest"
  by (simp add: loadTestModels_def testEntry_def loadModel_def loadModelWith_def decode_glb
      decode_b showModel_def setTimeout_def Let_def entry_def testPage_def pageLoad_def
      tieTest_def tieList_def spotlightTimers_def startResetCycle_def update_conv' upt_rec)

lemma tieTest_idle:
  "advance 2000 tieTest =
     tieTest\<lparr>now := 2000, timers := [],
        models := [(''a.glb'', \<lparr>object = \<lparr>oid = 0, visible = True\<rparr>,
                               options = \<lparr>optVisible = False, optDelay = 1000\<rparr>,
                               animations = []\<rparr>),
                   (''b.glb'', \<lparr>object = \<lparr>oid = 1, visible = True\<rparr>,
                               options = \<lparr>optVisible = False, optDelay = 1000\<rparr>,
                               animations = []\<rparr>)],
        spotlights := [\<lparr>spotVisible = True, spotDelay = 1500, modelPath = ''a.glb''\<rparr>,
                       \<lparr>spotVisible = True, spotDelay = 1500, modelPath = ''b.glb''\<rparr>],
        shown := [(1000, ''a.glb''), (1000, ''b.glb'')]\<rparr>"
  by (simp add: tieTest_def advance_def fire_def runCallback_def lightUp_def showModelCb_def
      forActions_def setVisible_def)

lemma plan_showAgain:
  assumes "map_of (models s) p = Some m"
  shows "plan (showAgain p s) = plan s @ [(now s + optDelay (options m), ShowModelCb p)]"
  using assms by (simp add: plan_def showAgain_def showModel_def setTimeout_def)

lemma showAgain_fields [simp]:
  "now (showAgain p s) = now s" "shown (showAgain p s) = shown s"
  "spotlights (showAgain p s) = spotlights s"
  by (simp_all add: showAgain_def showModel_def setTimeout_def split: option.splits)

lemma fold_showAgain_fields [simp]:
  "now (fold showAgain ps s) = now s" "shown (fold showAgain ps s) = shown s"
  by (rule fold_keeps, simp)+

lemma resetModels_spotlights [simp]: "spotlights (resetModels s) = spotlights s"
proof -
  have a: "\<And>p s. spotlights (hideModel p s) = spotlights s"
    by (simp add: hideModel_def forActions_def split: option.splits)
  have b: "\<And>p s. spotlights (recreateMixer p s) = spotlights s"
    by (simp add: recreateMixer_def Let_def split: option.splits)
  have "\<And>ps s. spotlights (fold hideModel ps s) = spotlights s"
    by (rule fold_keeps) (rule a)
  moreover have "\<And>ps s. spotlights (fold recreateMixer ps s) = spotlights s"
    by (rule fold_keeps) (rule b)
  moreover have "\<And>ps s. spotlights (fold showAgain ps s) = spotlights s"
    by (rule fold_keeps) simp
  ultimately show ?thesis
    by (simp add: resetModels_def Let_def hideAllModels_def)
qed

lemma plan_fold_showAgain:
  assumes "distinct (map fst al)" and "set al \<subseteq> set (models s)"
    and "distinct (map fst (models s))"
  shows "plan (fold showAgain (map fst al) s) =
           plan s @ map (\<lambda>e. (now s + optDelay (options (snd e)), ShowModelCb (fst e))) al"
  using assms
proof (induction al arbitrary: s)
  case Nil
  then show ?case by simp
next
  case (Cons e al)
  obtain p m where e: "e = (p, m)" by (cases e)
  have mo: "map_of (models s) p = Some m"
    using Cons.prems(2,3) e by simp
  have "plan (fold showAgain (map fst al) (showAgain p s)) =
          plan (showAgain p s) @
          map (\<lambda>e. (now (showAgain p s) + optDelay (options (snd e)), ShowModelCb (fst e))) al"
    using Cons.prems by (intro Cons.IH) simp_all
  then show ?case
    by (simp add: e plan_showAgain[OF mo])
qed

lemma plan_spotlightTimers:
  "plan (spotlightTimers mk s) =
     plan s @ map (\<lambda>i. (now s + spotDelay (spotlights s ! i), mk i)) [0..<length (spotlights s)]"
proof -
  have "plan (fold (\<lambda>i s'. setTimeout (mk i) (spotDelay (spotlights s' ! i)) s') is s) =
          plan s @ map (\<lambda>i. (now s + spotDelay (spotlights s ! i), mk i)) is" for "is"
    by (induction "is" arbitrary: s) (simp_all add: plan_def setTimeout_def)
  then show ?thesis by (simp add: spotlightTimers_def)
qed

lemma spotlightTimers_shown [simp]: "shown (spotlightTimers mk s) = shown s"
  unfolding spotlightTimers_def by (rule fold_keeps) (simp add: setTimeout_def)

lemma reveals_shows:
  "List.map_filter revealOf (map (\<lambda>c. (f c, ShowModelCb (g c))) xs) = map (\<lambda>c. (f c, g c)) xs"
  by (induction xs) (simp_all add: List.map_filter_simps)

lemma reveals_lights:
  "List.map_filter revealOf (map (\<lambda>i. (f i, SpotlightCb i)) is) = []"
  by (induction "is") (simp_all add: List.map_filter_simps)

lemma shown_advance:
  assumes due: "\<forall>dc \<in> set (plan s). now s \<le> fst dc \<and> fst dc \<le> T"
    and seq: "\<forall>dc \<in> set (plan s). \<forall>p. snd dc = SeqModelCb p \<longrightarrow> animationSequenceStarted s"
    and reg: "\<forall>dc \<in> set (plan s). \<forall>p. snd dc = ShowModelCb p \<longrightarrow> p \<in> fst ` set (models s)"
  shows "shown (advance T s) = shown s @ sort_key fst (List.map_filter revealOf (plan s))"
proof -
  have tm: "\<forall>t \<in> set (timers s). due t \<le> T"
  proof
    fix t assume "t \<in> set (timers s)"
    then have "(due t, cb t) \<in> set (plan s)" by (auto simp: plan_def)
    with due show "due t \<le> T" by fastforce
  qed
  define b where "b = s\<lparr>timers := []\<rparr>"
  have "shown (fold fireAt (sort_key fst (plan s)) b) =
          shown b @ List.map_filter revealOf (sort_key fst (plan s))"
  proof (rule shown_fold_fireAt)
    show "\<forall>dc \<in> set (sort_key fst (plan s)).
            \<forall>p. snd dc = SeqModelCb p \<longrightarrow> animationSequenceStarted b"
      using seq by (simp add: b_def)
    show "\<forall>dc \<in> set (sort_key fst (plan s)).
            \<forall>p. snd dc = ShowModelCb p \<longrightarrow> p \<in> fst ` set (models b)"
      using reg by (simp add: b_def)
    show "sorted (map fst (sort_key fst (plan s)))" by simp
    show "\<forall>dc \<in> set (sort_key fst (plan s)). now b \<le> fst dc"
      using due by (simp add: b_def)
  qed
  then show ?thesis
    unfolding advance_all[OF tm] reveals_sorted by (simp add: b_def)
qed

lemma reset_run:
  assumes idle: "timers s = []" and dist: "distinct (map fst (models s))"
    and late: "\<forall>e \<in> set (models s). now s + optDelay (options (snd e)) \<le> T"
  shows "shown (advance T (resetModels s)) =
           shown s @ sort_key fst (map (\<lambda>e. (now s + optDelay (options (snd e)), fst e)) (models s))"
    and "\<forall>sp \<in> set (spotlights s). now s + spotDelay sp \<le> T \<Longrightarrow>
         shown (advance T (resetModelsPatched s)) =
           shown s @ sort_key fst (map (\<lambda>e. (now s + optDelay (options (snd e)), fst e)) (models s))"
proof -
  define h where "h = hideAllModels s"
  define r where "r = fold recreateMixer (map fst (models h)) h"
  define s1 where "s1 = resetModels s"
  define s2 where "s2 = resetModelsPatched s"
  let ?hide = "map (\<lambda>sp. sp\<lparr>spotVisible := False\<rparr>) (spotlights s)"
  have eq: "s1 = fold showAgain (map fst (models r)) r"
    by (simp add: s1_def resetModels_def Let_def r_def h_def)
  have mr: "models r = map (\<lambda>e. (fst e, setVisible False (snd e))) (models s)"
    using models_hideAllModels[OF dist] by (simp add: r_def h_def)
  have fr: "plan r = []" "now r = now s" "shown r = shown s"
    using idle by (simp_all add: plan_def r_def h_def)
  have dr: "distinct (map fst (models r))" using dist by (simp add: mr comp_def)
  have pl: "plan s1 = map (\<lambda>e. (now s + optDelay (options (snd e)), ShowModelCb (fst e))) (models s)"
    unfolding eq plan_fold_showAgain[OF dr subset_refl dr]
    by (simp add: fr mr comp_def setVisible_def)
  have f1: "now s1 = now s" "shown s1 = shown s" "models s1 = models r"
    by (simp_all add: eq fr)
  have sp1: "spotlights s1 = spotlights s" by (simp add: s1_def)
  have k1: "fst ` set (models s1) = fst ` set (models s)"
    by (simp add: f1 mr image_image)
  have "shown (advance T s1) = shown s1 @ sort_key fst (List.map_filter revealOf (plan s1))"
  proof (rule shown_advance)
    show "\<forall>dc \<in> set (plan s1). now s1 \<le> fst dc \<and> fst dc \<le> T"
      unfolding pl using late by (auto simp: f1)
    show "\<forall>dc \<in> set (plan s1). \<forall>p. snd dc = SeqModelCb p \<longrightarrow> animationSequenceStarted s1"
      unfolding pl by auto
    show "\<forall>dc \<in> set (plan s1). \<forall>p. snd dc = ShowModelCb p \<longrightarrow> p \<in> fst ` set (models s1)"
      unfolding pl k1 by auto
  qed
  then show "shown (advance T (resetModels s)) =
           shown s @ sort_key fst (map (\<lambda>e. (now s + optDelay (options (snd e)), fst e)) (models s))"
    unfolding s1_def[symmetric] pl reveals_shows by (simp add: f1)
  assume sl: "\<forall>sp \<in> set (spotlights s). now s + spotDelay sp \<le> T"
  have e2: "s2 = spotlightTimers SpotlightCb (s1\<lparr>spotlights := ?hide\<rparr>)"
    by (simp add: s2_def resetModelsPatched_def Let_def s1_def)
  have p2: "plan s2 = plan s1 @
              map (\<lambda>i. (now s + spotDelay (?hide ! i), SpotlightCb i)) [0..<length (spotlights s)]"
    unfolding e2 plan_spotlightTimers by (simp add: plan_def f1 sp1)
  have f2: "now s2 = now s" "shown s2 = shown s" "models s2 = models s1"
    by (simp_all add: e2 f1)
  have "shown (advance T s2) = shown s2 @ sort_key fst (List.map_filter revealOf (plan s2))"
  proof (rule shown_advance)
    show "\<forall>dc \<in> set (plan s2). now s2 \<le> fst dc \<and> fst dc \<le> T"
      unfolding p2 pl using late sl by (auto simp: f2)
    show "\<forall>dc \<in> set (plan s2). \<forall>p. snd dc = SeqModelCb p \<longrightarrow> animationSequenceStarted s2"
      unfolding p2 pl by auto
    show "\<forall>dc \<in> set (plan s2). \<forall>p. snd dc = ShowModelCb p \<longrightarrow> p \<in> fst ` set (models s2)"
      unfolding p2 pl f2 k1 by force
  qed
  then show "shown (advance T (resetModelsPatched s)) =
           shown s @ sort_key fst (map (\<lambda>e. (now s + optDelay (options (snd e)), fst e)) (models s))"
    unfolding s2_def[symmetric] p2 pl reveals_append reveals_shows reveals_lights
    by (simp add: f2)
qed


subsection \<open>The order of reveals\<close>

text \<open>
  C8, as the code has it. In AR mode, under the same conditions (a completed
  \<open>initializeAR\<close>, enabled entries with pairwise distinct paths, the clock past every
  reveal time), the reveals observed at time \<open>T0 + k\<close>, in the order in which they
  happened, are the enabled entries of delay \<open>k\<close> in the order of the configuration
  list. In test mode, when \<open>resetModels\<close> (alone, or as \<open>loadTestModels\<close>
  rebinds it) runs in a state with no pending timer and pairwise distinct registry paths,
  the reveals it causes at time \<open>now + k\<close> are the registry entries of delay
  \<open>k\<close> in the order of the registry, which is the order in which the paths were
  first loaded.
\<close>

theorem equal_delays_reveal_in_list_order:
  assumes "initializeAR h cfgs pageLoad = (None, s0)"
    and "distinct (map cfgPath (filter cfgEnabled cfgs))"
    and "\<forall>c \<in> set cfgs. cfgEnabled c \<longrightarrow> T0 + cfgDelay c \<le> T"
    and "timers s = []" and "distinct (map fst (models s))"
    and "\<forall>e \<in> set (models s). now s + optDelay (options (snd e)) \<le> T'"
    and "\<forall>sp \<in> set (spotlights s). now s + spotDelay sp \<le> T'"
  shows "filter (\<lambda>r. fst r = T0 + k)
           (shown (advance T (startAnimationSequence (advance T0 s0)))) =
         map (\<lambda>c. (T0 + k, cfgPath c))
           (filter (\<lambda>c. cfgDelay c = k) (filter cfgEnabled cfgs)) \<and>
         filter (\<lambda>r. fst r = now s + k)
           (drop (length (shown s)) (shown (advance T' (resetModels s)))) =
         map (\<lambda>e. (now s + k, fst e))
           (filter (\<lambda>e. optDelay (options (snd e)) = k) (models s)) \<and>
         filter (\<lambda>r. fst r = now s + k)
           (drop (length (shown s)) (shown (advance T' (resetModelsPatched s)))) =
         map (\<lambda>e. (now s + k, fst e))
           (filter (\<lambda>e. optDelay (options (snd e)) = k) (models s))"
proof -
  have pick: "filter (\<lambda>r. fst r = t + k) (sort_key fst (map (\<lambda>x. (t + d x, g x)) xs)) =
              map (\<lambda>x. (t + k, g x)) (filter (\<lambda>x. d x = k) xs)"
    for t :: nat and d :: "'a \<Rightarrow> nat" and g :: "'a \<Rightarrow> path" and xs
  proof -
    have "filter (\<lambda>r. fst r = t + k) (sort_key fst (map (\<lambda>x. (t + d x, g x)) xs)) =
            filter (\<lambda>r. fst r = t + k) (map (\<lambda>x. (t + d x, g x)) xs)"
      by (rule sort_key_stable)
    also have "\<dots> = map (\<lambda>x. (t + d x, g x)) (filter (\<lambda>x. d x = k) xs)"
      by (simp add: filter_map comp_def)
    also have "\<dots> = map (\<lambda>x. (t + k, g x)) (filter (\<lambda>x. d x = k) xs)"
      by (rule map_cong) simp_all
    finally show ?thesis .
  qed
  have "filter (\<lambda>r. fst r = T0 + k)
           (shown (advance T (startAnimationSequence (advance T0 s0)))) =
         map (\<lambda>c. (T0 + k, cfgPath c))
           (filter (\<lambda>c. cfgDelay c = k) (filter cfgEnabled cfgs))"
    unfolding sequence_run(2)[OF assms(1,2,3)] by (rule pick)
  moreover have "filter (\<lambda>r. fst r = now s + k)
           (drop (length (shown s)) (shown (advance T' (resetModels s)))) =
         map (\<lambda>e. (now s + k, fst e))
           (filter (\<lambda>e. optDelay (options (snd e)) = k) (models s))"
    unfolding reset_run(1)[OF assms(4,5,6)] by (simp add: pick)
  moreover have "filter (\<lambda>r. fst r = now s + k)
           (drop (length (shown s)) (shown (advance T' (resetModelsPatched s)))) =
         map (\<lambda>e. (now s + k, fst e))
           (filter (\<lambda>e. optDelay (options (snd e)) = k) (models s))"
    unfolding reset_run(2)[OF assms(4,5,6,7)] by (simp add: pick)
  ultimately show ?thesis by simp
qed


theorem equal_delays_reveal_in_list_order_witness:
  "initializeAR demoHost tieList pageLoad = (None, tieLoaded) \<and>
   map cfgPath (filter cfgEnabled tieList) = [''a.glb'', ''b.glb''] \<and>
   map cfgDelay (filter cfgEnabled tieList) = [1000, 1000] \<and>
   filter (\<lambda>r. fst r = 1050) (shown (advance 2000 (startAnimationSequence (advance 50 tieLoaded)))) =
     [(1050, ''a.glb''), (1050, ''b.glb'')] \<and>
   loadTestModels demoHost tieList testPage = tieTest \<and>
   shown (advance 2000 tieTest) = [(1000, ''a.glb''), (1000, ''b.glb'')] \<and>
   filter (\<lambda>r. fst r = 3000) (drop 2 (shown (advance 4000 (resetModels (advance 2000 tieTest))))) =
     [(3000, ''a.glb''), (3000, ''b.glb'')] \<and>
   filter (\<lambda>r. fst r = 3000)
     (drop 2 (shown (advance 4000 (resetModelsPatched (advance 2000 tieTest))))) =
     [(3000, ''a.glb''), (3000, ''b.glb'')]"
proof -
  have p: "map cfgPath (filter cfgEnabled tieList) = [''a.glb'', ''b.glb'']"
    and d: "map cfgDelay (filter cfgEnabled tieList) = [1000, 1000]"
    by (simp_all add: tieList_def entry_def)
  have dist: "distinct (map cfgPath (filter cfgEnabled tieList))"
    by (simp add: p)
  have late: "\<forall>c \<in> set tieList. cfgEnabled c \<longrightarrow> 50 + cfgDelay c \<le> 2000"
    by (simp add: tieList_def entry_def)
  have t: "timers (advance 2000 tieTest) = []"
    and k: "distinct (map fst (models (advance 2000 tieTest)))"
    and m: "\<forall>e \<in> set (models (advance 2000 tieTest)).
              now (advance 2000 tieTest) + optDelay (options (snd e)) \<le> 4000"
    and l: "\<forall>sp \<in> set (spotlights (advance 2000 tieTest)).
              now (advance 2000 tieTest) + spotDelay sp \<le> 4000"
    and n: "now (advance 2000 tieTest) = 2000"
    and sh: "shown (advance 2000 tieTest) = [(1000, ''a.glb''), (1000, ''b.glb'')]"
    and ms: "map (\<lambda>e. (fst e, optDelay (options (snd e)))) (models (advance 2000 tieTest)) =
               [(''a.glb'', 1000), (''b.glb'', 1000)]"
    unfolding tieTest_idle by (simp_all add: tieTest_def)
  have n0: "now tieTest = 0" by (simp add: tieTest_def)
  have f: "map (\<lambda>e. (3000::nat, fst e))
             (filter (\<lambda>e. optDelay (options (snd e)) = 1000) (models (advance 2000 tieTest))) =
           [(3000, ''a.glb''), (3000, ''b.glb'')]"
    unfolding tieTest_idle by simp
  from equal_delays_reveal_in_list_order[OF tieLoaded_init dist late t k m l, of 1000]
  show ?thesis
    using tieLoaded_init tieTest_eq p d sh f by (simp add: tieList_def entry_def n0 numeral_2_eq_2)
qed


text \<open>
  C8, as stated for every pair of entries, fails when a path is listed twice (the same
  file placed at two positions of the scene): for
  \<open>a.glb\<close>, \<open>b.glb\<close>, \<open>a.glb\<close>, all with delay 1000, the registry keeps
  \<open>a.glb\<close> at its first position with the object of the third entry (number 2), and
  that object is revealed before the object of the second entry, which comes earlier in
  the list.
\<close>

theorem duplicate_path_breaks_list_order:
  "initializeAR demoHost [entry ''a.glb'' 1000, entry ''b.glb'' 1000, entry ''a.glb'' 1000]
     pageLoad = (None, tripLoaded) \<and>
   map (\<lambda>e. (fst e, oid (object (snd e)))) (models tripLoaded) =
     [(''a.glb'', 2), (''b.glb'', 1)] \<and>
   shown (advance 1000 (startAnimationSequence tripLoaded)) =
     [(1000, ''a.glb''), (1000, ''b.glb'')]"
proof -
  have "shown (advance 1000 (startAnimationSequence tripLoaded)) =
     [(1000, ''a.glb''), (1000, ''b.glb'')]"
    by (simp add: run_defs tripLoaded_def upt_rec)
  moreover have "map (\<lambda>e. (fst e, oid (object (snd e)))) (models tripLoaded) =
     [(''a.glb'', 2), (''b.glb'', 1)]"
    by (simp add: tripLoaded_def)
  ultimately show ?thesis using tripLoaded_init by simp
qed


end
